theory Spec2Isabelle
  imports Complex_Main "HOL-Library.Word" "HOL-Library.Signed_Division"
begin

unbundle bit_operations_syntax

section \<open>Data model\<close>

text \<open>
  The development embeds \<^verbatim>\<open>src/types.go\<close> of package kandinsky. The package draws on a
  canvas of the gosvg library and inspects its input through Go's reflect package; both
  are outside the repository, so the part of them the code uses is modelled here.

  Conventions of the embedding:
  \<^item> \<^verbatim>\<open>float64\<close> is \<open>real\<close> and arithmetic is exact. The model is the program where
    float64 computes the loop counters and the tested values exactly; that is so for a
    size that is a whole number below \<open>2 ^ 40\<close> (\<open>whole_size\<close> below: an eighth of it
    and the multiples of the eighth are exact). Coordinates may differ from the
    program's by rounding. Outside that range the program can differ in kind: for a
    subnormal size the eighth is 0 in float64, and for a size like 1.1 the counters
    do not reach 0 exactly. NaN and the infinities are outside the model;
  \<^item> Go's \<^verbatim>\<open>int\<close> and \<^verbatim>\<open>int64\<close> are \<open>64 word\<close> read through \<open>sint\<close> (a 64-bit
    platform), \<^verbatim>\<open>uint64\<close> is \<open>64 word\<close> read unsigned;
  \<^item> a panic is a value, never an unspecified result.
\<close>

subsection \<open>reflect.Kind\<close>

datatype kind =
    KInvalid | KBool
  | KInt | KInt8 | KInt16 | KInt32 | KInt64
  | KUint | KUint8 | KUint16 | KUint32 | KUint64 | KUintptr
  | KFloat32 | KFloat64 | KComplex64 | KComplex128
  | KArray | KChan | KFunc | KInterface | KMap | KPtr | KSlice | KString | KStruct
  | KUnsafePointer

datatype int_t = TInt | TInt8 | TInt16 | TInt32 | TInt64
datatype uint_t = TUint | TUint8 | TUint16 | TUint32 | TUint64 | TUintptr
datatype float_t = TFloat32 | TFloat64
datatype other_t = TComplex64 | TComplex128 | TArray | TChan | TFunc | TUnsafePointer

subsection \<open>Go values\<close>

text \<open>
  A Go value as reflection sees it. An integer carries what \<^verbatim>\<open>v.Int()\<close> or
  \<^verbatim>\<open>v.Uint()\<close> returns (the value widened to 64 bits), a string its bytes, a struct its
  fields in declaration order with the flags "exported" (of the field's name) and
  "embedded", a map its entries in the order
  \<^verbatim>\<open>v.MapKeys()\<close> happens to return them, an interface or pointer what it holds
  (\<open>None\<close> is nil). Values are finite trees: cyclic pointer structures are excluded.
\<close>

datatype val =
    VInt int_t "64 word"
  | VUint uint_t "64 word"
  | VFloat float_t real
  | VBool bool
  | VString "8 word list"
  | VStruct "field list"
  | VSlice "val list"
  | VMap "entry list"
  | VInterface "val option"
  | VPtr "val option"
  | VOther other_t
and field = Field (exported: bool) (embedded: bool) (fval: val)
and entry = Entry (ekey: val) (evalue: val)

text \<open>
  The read-only bits of a \<^verbatim>\<open>reflect.Value\<close>. Reflection sets \<^verbatim>\<open>flagStickyRO\<close> on a
  Value obtained through an unexported field that is not embedded and \<^verbatim>\<open>flagEmbedRO\<close>
  on one obtained through an unexported embedded field. \<open>StickyRO\<close> stands for every
  flag word that has the sticky bit (no operation tells whether the other bit is set
  as well), \<open>EmbedRO\<close> for the embed bit alone.
\<close>

datatype roflag = NotRO | EmbedRO | StickyRO

text \<open>A \<^verbatim>\<open>reflect.Value\<close>: the zero Value, or a value with its read-only bits.\<close>

datatype rvalue = ZeroValue | RValue (flag: roflag) (data: val)

text \<open>
  The sizes on which float64 computes as the model does: the whole numbers from 1 to
  below \<open>2 ^ 40\<close>.
\<close>

definition whole_size :: "real \<Rightarrow> bool" where
  "whole_size sz = (sz \<in> \<nat> \<and> 0 < sz \<and> sz < 2 ^ 40)"

subsection \<open>Errors and panics\<close>

datatype error = InvalidSize | UnsupportedTypeError kind | InvalidValueError

datatype panic =
    PanicInvalidValue       \<comment> \<open>\<^verbatim>\<open>panic(InvalidValueError{v: v})\<close> in valueEncoder\<close>
  | PanicUnexported         \<comment> \<open>\<^verbatim>\<open>Interface()\<close> on a read-only Value\<close>
  | PanicValueError         \<comment> \<open>a reflect accessor called on a Value of the wrong kind\<close>

text \<open>
  How a call of an encoder ends: it returns nil, returns an error, panics, or does not
  return.
\<close>

datatype status = Success | Failure error | Panicked panic | Diverged

subsection \<open>The canvas\<close>

text \<open>
  The gosvg canvas is append-only: \<^verbatim>\<open>Rect\<close>, \<^verbatim>\<open>Circle\<close>, \<^verbatim>\<open>Polygon\<close> and
  \<^verbatim>\<open>Group\<close> add one element to the group they are called on, \<^verbatim>\<open>Style.Set\<close> and the
  \<^verbatim>\<open>Transform\<close> methods add to the element's own lists. An encoder is therefore modelled
  by the list of elements it appends to its group, in order, together with its status;
  what was drawn before an error stays in the list.
\<close>

type_synonym style = "(string \<times> string) list"

datatype transform = Translate real real | Scale real real

datatype elem =
    Rect real real real real style
  | Circle real real real style
  | Polygon "(real \<times> real) list" style
  | Group "transform list" "elem list"

type_synonym outcome = "elem list \<times> status"

section \<open>The reflect accessors the encoders call\<close>

fun kind_of :: "val \<Rightarrow> kind" where
  "kind_of (VInt TInt _) = KInt"
| "kind_of (VInt TInt8 _) = KInt8"
| "kind_of (VInt TInt16 _) = KInt16"
| "kind_of (VInt TInt32 _) = KInt32"
| "kind_of (VInt TInt64 _) = KInt64"
| "kind_of (VUint TUint _) = KUint"
| "kind_of (VUint TUint8 _) = KUint8"
| "kind_of (VUint TUint16 _) = KUint16"
| "kind_of (VUint TUint32 _) = KUint32"
| "kind_of (VUint TUint64 _) = KUint64"
| "kind_of (VUint TUintptr _) = KUintptr"
| "kind_of (VFloat TFloat32 _) = KFloat32"
| "kind_of (VFloat TFloat64 _) = KFloat64"
| "kind_of (VBool _) = KBool"
| "kind_of (VString _) = KString"
| "kind_of (VStruct _) = KStruct"
| "kind_of (VSlice _) = KSlice"
| "kind_of (VMap _) = KMap"
| "kind_of (VInterface _) = KInterface"
| "kind_of (VPtr _) = KPtr"
| "kind_of (VOther TComplex64) = KComplex64"
| "kind_of (VOther TComplex128) = KComplex128"
| "kind_of (VOther TArray) = KArray"
| "kind_of (VOther TChan) = KChan"
| "kind_of (VOther TFunc) = KFunc"
| "kind_of (VOther TUnsafePointer) = KUnsafePointer"

fun v_IsValid :: "rvalue \<Rightarrow> bool" where
  "v_IsValid ZeroValue = False"
| "v_IsValid (RValue _ _) = True"

text \<open>
  \<^verbatim>\<open>v.Type()\<close>: the only attribute of a \<^verbatim>\<open>reflect.Type\<close> the package reads is its
  kind, so a type descriptor is a kind. On the zero Value \<^verbatim>\<open>Type\<close> panics.
\<close>

fun v_Type :: "rvalue \<Rightarrow> panic + kind" where
  "v_Type ZeroValue = Inl PanicValueError"
| "v_Type (RValue _ d) = Inr (kind_of d)"

text \<open>\<^verbatim>\<open>reflect.ValueOf(i)\<close> for an \<^verbatim>\<open>interface{}\<close> holding \<open>i\<close>.\<close>

fun ValueOf :: "val option \<Rightarrow> rvalue" where
  "ValueOf None = ZeroValue"
| "ValueOf (Some d) = RValue NotRO d"

text \<open>
  \<^verbatim>\<open>flag.ro()\<close>: what \<^verbatim>\<open>Index\<close>, \<^verbatim>\<open>MapKeys\<close>, \<^verbatim>\<open>MapIndex\<close> and \<^verbatim>\<open>Elem\<close> of an
  interface hand down: the sticky bit when either bit is set.
\<close>

fun ro :: "roflag \<Rightarrow> roflag" where
  "ro NotRO = NotRO"
| "ro EmbedRO = StickyRO"
| "ro StickyRO = StickyRO"

text \<open>
  The bits of \<^verbatim>\<open>v.Field(i)\<close>: the sticky bit of the struct is inherited, its embed
  bit is not; an unexported field adds the embed bit when it is embedded and the
  sticky bit otherwise.
\<close>

fun fieldFlag :: "roflag \<Rightarrow> field \<Rightarrow> roflag" where
  "fieldFlag StickyRO f = StickyRO"
| "fieldFlag fl f = (if exported f then NotRO else if embedded f then EmbedRO else StickyRO)"

definition fieldValue :: "roflag \<Rightarrow> field \<Rightarrow> rvalue" where
  "fieldValue fl f = RValue (fieldFlag fl f) (fval f)"

fun v_Int :: "rvalue \<Rightarrow> panic + 64 word" where
  "v_Int (RValue _ (VInt _ n)) = Inr n"
| "v_Int _ = Inl PanicValueError"

fun v_Uint :: "rvalue \<Rightarrow> panic + 64 word" where
  "v_Uint (RValue _ (VUint _ n)) = Inr n"
| "v_Uint _ = Inl PanicValueError"

fun v_Float :: "rvalue \<Rightarrow> panic + real" where
  "v_Float (RValue _ (VFloat _ x)) = Inr x"
| "v_Float _ = Inl PanicValueError"

fun v_Bool :: "rvalue \<Rightarrow> panic + bool" where
  "v_Bool (RValue _ (VBool b)) = Inr b"
| "v_Bool _ = Inl PanicValueError"

text \<open>
  On a Value of another kind \<^verbatim>\<open>v.String()\<close> returns a description of the type
  instead of panicking. stringEncoder is bound to kind String only; the model marks the
  other kinds with \<open>PanicValueError\<close> rather than inventing that description.
\<close>

fun v_String :: "rvalue \<Rightarrow> panic + 8 word list" where
  "v_String (RValue _ (VString s)) = Inr s"
| "v_String _ = Inl PanicValueError"

text \<open>
  \<^verbatim>\<open>v.Elem()\<close>: what an interface or pointer holds; the zero Value when it is nil.
  For an interface the bits go through \<^verbatim>\<open>ro()\<close>, for a pointer they are kept.
\<close>

fun v_Elem :: "rvalue \<Rightarrow> panic + rvalue" where
  "v_Elem (RValue fl (VInterface None)) = Inr ZeroValue"
| "v_Elem (RValue fl (VInterface (Some d))) = Inr (RValue (ro fl) d)"
| "v_Elem (RValue fl (VPtr None)) = Inr ZeroValue"
| "v_Elem (RValue fl (VPtr (Some d))) = Inr (RValue fl d)"
| "v_Elem _ = Inl PanicValueError"

text \<open>
  \<^verbatim>\<open>t.NumField()\<close> with \<^verbatim>\<open>v.Field(i)\<close> for every index: the fields of a struct as
  Values, each with the bits \<open>fieldFlag\<close> gives it.
\<close>

fun v_Fields :: "rvalue \<Rightarrow> panic + rvalue list" where
  "v_Fields (RValue fl (VStruct fs)) = Inr (map (fieldValue fl) fs)"
| "v_Fields _ = Inl PanicValueError"

text \<open>\<^verbatim>\<open>v.Len()\<close> with \<^verbatim>\<open>v.Index(i)\<close> for every index.\<close>

fun v_Indexes :: "rvalue \<Rightarrow> panic + rvalue list" where
  "v_Indexes (RValue fl (VSlice xs)) = Inr (map (RValue (ro fl)) xs)"
| "v_Indexes _ = Inl PanicValueError"

text \<open>
  \<^verbatim>\<open>v.MapKeys()\<close>, each key paired with its \<^verbatim>\<open>v.MapIndex(k)\<close>; both get the bits
  of the map through \<^verbatim>\<open>ro()\<close>.
\<close>

fun v_MapKeys :: "rvalue \<Rightarrow> panic + (rvalue \<times> rvalue) list" where
  "v_MapKeys (RValue fl (VMap es)) =
     Inr (map (\<lambda>e. (RValue (ro fl) (ekey e), RValue (ro fl) (evalue e))) es)"
| "v_MapKeys _ = Inl PanicValueError"

text \<open>
  \<^verbatim>\<open>v.Interface()\<close>: the value as an \<^verbatim>\<open>interface{}\<close>. It panics on a Value with a
  read-only bit; a Value of interface kind gives what the interface holds.
\<close>

fun v_Interface :: "rvalue \<Rightarrow> panic + val option" where
  "v_Interface ZeroValue = Inl PanicValueError"
| "v_Interface (RValue EmbedRO _) = Inl PanicUnexported"
| "v_Interface (RValue StickyRO _) = Inl PanicUnexported"
| "v_Interface (RValue NotRO (VInterface x)) = Inr x"
| "v_Interface (RValue NotRO d) = Inr (Some d)"

section \<open>Type dispatch\<close>

text \<open>The ten functions an \<^verbatim>\<open>encoderFunc\<close> can point to.\<close>

datatype encoderFunc =
    IntEncoder | ByteEncoder | FloatEncoder | BoolEncoder | StringEncoder
  | StructEncoder | SliceEncoder | MapEncoder | IfaceEncoder | PtrEncoder

text \<open>\<^verbatim>\<open>newTypeEncoder\<close>: the switch on \<^verbatim>\<open>t.Kind()\<close>, \<open>Inl\<close> for the error.\<close>

fun newTypeEncoder :: "kind \<Rightarrow> error + encoderFunc" where
  "newTypeEncoder KInt = Inr IntEncoder"
| "newTypeEncoder KInt8 = Inr IntEncoder"
| "newTypeEncoder KInt16 = Inr IntEncoder"
| "newTypeEncoder KInt32 = Inr IntEncoder"
| "newTypeEncoder KInt64 = Inr IntEncoder"
| "newTypeEncoder KUint8 = Inr ByteEncoder"
| "newTypeEncoder KFloat32 = Inr FloatEncoder"
| "newTypeEncoder KFloat64 = Inr FloatEncoder"
| "newTypeEncoder KBool = Inr BoolEncoder"
| "newTypeEncoder KString = Inr StringEncoder"
| "newTypeEncoder KStruct = Inr StructEncoder"
| "newTypeEncoder KSlice = Inr SliceEncoder"
| "newTypeEncoder KMap = Inr MapEncoder"
| "newTypeEncoder KInterface = Inr IfaceEncoder"
| "newTypeEncoder KPtr = Inr PtrEncoder"
| "newTypeEncoder t = Inl (UnsupportedTypeError t)"

text \<open>
  \<^verbatim>\<open>encoderCache\<close> is a package-level map from type to encoder, nil at start.
  \<^verbatim>\<open>typeEncoder\<close> returns the cached encoder when there is one, and otherwise calls
  \<^verbatim>\<open>newTypeEncoder\<close> and stores a successful result. With the cache as explicit state:
\<close>

type_synonym encoderCache = "kind \<rightharpoonup> encoderFunc"

definition typeEncoder_cached ::
  "encoderCache \<Rightarrow> kind \<Rightarrow> (error + encoderFunc) \<times> encoderCache" where
  "typeEncoder_cached m t =
     (case m t of
        Some f \<Rightarrow> (Inr f, m)
      | None \<Rightarrow>
          (case newTypeEncoder t of
             Inl err \<Rightarrow> (Inl err, m)
           | Inr f \<Rightarrow> (Inr f, m(t \<mapsto> f))))"

text \<open>
  Nothing else writes the cache, so every entry is a result of \<^verbatim>\<open>newTypeEncoder\<close>
  (\<open>cache_ok\<close>), and on such a cache \<^verbatim>\<open>typeEncoder\<close> returns what
  \<^verbatim>\<open>newTypeEncoder\<close> returns (lemma \<open>typeEncoder_cached_result\<close> below). The walker
  is modelled on that result, without the cache in its state; the locks around the cache
  are not modelled.
\<close>

definition cache_ok :: "encoderCache \<Rightarrow> bool" where
  "cache_ok m = (\<forall>t f. m t = Some f \<longrightarrow> newTypeEncoder t = Inr f)"

definition typeEncoder :: "kind \<Rightarrow> error + encoderFunc" where
  "typeEncoder t = newTypeEncoder t"

text \<open>
  \<^verbatim>\<open>valueEncoder\<close>. The source panics where the unreachable statement after the panic
  would return the error.
\<close>

definition valueEncoder :: "rvalue \<Rightarrow> panic + (error + encoderFunc)" where
  "valueEncoder v =
     (if \<not> v_IsValid v then Inl PanicInvalidValue
      else case v_Type v of Inl p \<Rightarrow> Inl p | Inr t \<Rightarrow> Inr (typeEncoder t))"

section \<open>Leaf encoders\<close>

subsection \<open>intEncoder\<close>

text \<open>
  The body of the inner loop up to the shift: \<^verbatim>\<open>bit := val % 2\<close> (Go's remainder
  truncates, \<open>smod\<close>) and the rectangle drawn when the bit is 1.
\<close>

definition intBit :: "real \<Rightarrow> real \<Rightarrow> string \<Rightarrow> real \<Rightarrow> real \<Rightarrow> 64 word \<Rightarrow> elem list \<Rightarrow> elem list" where
  "intBit blkSz margin color y x val g =
     (if sint val smod 2 = 1
      then g @ [Rect (x + margin) (y - margin) blkSz blkSz
                  [(''stroke-width'', ''0''), (''fill'', color)]]
      else g)"

text \<open>
  The inner loop \<^verbatim>\<open>for x := sz - cellSz; x > 0; x -= cellSz\<close>, from the current \<open>x\<close>.
  The result says whether the function returned from inside the loop, and gives the
  remaining value and the group. \<^verbatim>\<open>val >> 1\<close> on a signed integer is the arithmetic
  shift. Taken alone the loop need not end (a negative \<open>val\<close> never becomes 0, and
  \<open>x\<close> does not fall when \<open>cellSz \<le> 0\<close>), so not returning is the value \<open>None\<close>.
  The counter is exact here; float64 agrees on whole sizes (\<open>whole_size\<close>), where
  \<open>cellSz\<close> and its multiples are exact.
\<close>

partial_function (option) intCols ::
  "real \<Rightarrow> real \<Rightarrow> real \<Rightarrow> string \<Rightarrow> real \<Rightarrow> real \<Rightarrow> 64 word \<Rightarrow> elem list
     \<Rightarrow> (bool \<times> 64 word \<times> elem list) option" where
  "intCols cellSz blkSz margin color y x val g =
     (if x > 0 then
        (if signed_drop_bit 1 val = 0
         then Some (True, signed_drop_bit 1 val, intBit blkSz margin color y x val g)
         else intCols cellSz blkSz margin color y (x - cellSz) (signed_drop_bit 1 val)
                (intBit blkSz margin color y x val g))
      else Some (False, val, g))"

text \<open>The outer loop \<^verbatim>\<open>for y := sz - cellSz; y > 0; y -= cellSz\<close>, from the current \<open>y\<close>.\<close>

partial_function (option) intRows ::
  "real \<Rightarrow> real \<Rightarrow> real \<Rightarrow> real \<Rightarrow> string \<Rightarrow> real \<Rightarrow> 64 word \<Rightarrow> elem list
     \<Rightarrow> elem list option" where
  "intRows sz cellSz blkSz margin color y val g =
     (if y > 0 then
        (case intCols cellSz blkSz margin color y (sz - cellSz) val g of
           None \<Rightarrow> None
         | Some (returned, val', g') \<Rightarrow>
             if returned then Some g'
             else intRows sz cellSz blkSz margin color (y - cellSz) val' g')
      else Some g)"

declare intRows.simps [code]

definition intEncoder :: "real \<Rightarrow> rvalue \<Rightarrow> outcome" where
  "intEncoder sz v =
     (case v_Int v of
        Inl p \<Rightarrow> ([], Panicked p)
      | Inr n \<Rightarrow>
          (let (color, val) = (if sint n \<le> 0 then (''red'', - n) else (''black'', n));
               factor = 0.1;
               cellSz = sz / 8;
               blkSz = cellSz * (1 - factor);
               margin = cellSz * (factor / 2)
           in case intRows sz cellSz blkSz margin color (sz - cellSz) val [] of
                None \<Rightarrow> ([], Diverged)
              | Some g \<Rightarrow> (g, Success)))"

subsection \<open>byteEncoder\<close>

definition byteBit :: "real \<Rightarrow> real \<Rightarrow> real \<Rightarrow> real \<Rightarrow> 64 word \<Rightarrow> elem list \<Rightarrow> elem list" where
  "byteBit sz blkH margin y val g =
     (if val mod 2 = 1
      then g @ [Rect margin (y - margin) (sz - margin) blkH
                  [(''stroke-width'', ''0''), (''fill'', ''black'')]]
      else g)"

text \<open>
  The loop \<^verbatim>\<open>for y := sz - h; y > 0; y -= h\<close>, from the current \<open>y\<close>. \<open>val\<close> is
  unsigned and halves in every round, so the loop ends whatever \<open>h\<close> is. The
  counter is exact here; float64 agrees on whole sizes (\<open>whole_size\<close>), where \<open>h\<close>
  and its multiples are exact.
\<close>

function byteRows :: "real \<Rightarrow> real \<Rightarrow> real \<Rightarrow> real \<Rightarrow> real \<Rightarrow> 64 word \<Rightarrow> elem list \<Rightarrow> elem list" where
  "byteRows sz h blkH margin y val g =
     (if y > 0 then
        (if drop_bit 1 val = 0
         then byteBit sz blkH margin y val g
         else byteRows sz h blkH margin (y - h) (drop_bit 1 val) (byteBit sz blkH margin y val g))
      else g)"
  by pat_completeness auto

lemma unat_half_less:
  "drop_bit (Suc 0) (w :: 64 word) \<noteq> 0 \<Longrightarrow> unat (drop_bit (Suc 0) w) < unat w"
proof -
  assume nz: "drop_bit (Suc 0) w \<noteq> 0"
  have eq: "unat (drop_bit (Suc 0) w) = unat w div 2"
    by (simp add: unat_drop_bit_eq drop_bit_eq_div unat_div)
  from nz have "unat (drop_bit (Suc 0) w) \<noteq> 0"
    by (simp add: unat_eq_zero)
  with eq show ?thesis by linarith
qed

termination byteRows
  by (relation "measure (\<lambda>(sz, h, blkH, margin, y, val, g). unat val)")
     (auto simp: unat_half_less)

declare byteRows.simps [simp del]

definition byteEncoder :: "real \<Rightarrow> rvalue \<Rightarrow> outcome" where
  "byteEncoder sz v =
     (case v_Uint v of
        Inl p \<Rightarrow> ([], Panicked p)
      | Inr val \<Rightarrow>
          (let h = sz / 8;
               factor = 0.2;
               blkH = h * (1 - factor);
               margin = h * (factor / 2)
           in (byteRows sz h blkH margin (sz - h) val [], Success)))"

subsection \<open>floatEncoder\<close>

text \<open>
  The test \<^verbatim>\<open>val <= 0\<close> is on the product \<open>f * (sz / 2)\<close>, exact here. In float64
  the product has the sign of \<open>f\<close> when \<open>sz / 2 \<ge> 1\<close>; for a smaller factor it can
  underflow to 0.
\<close>

definition floatEncoder :: "real \<Rightarrow> rvalue \<Rightarrow> outcome" where
  "floatEncoder sz v =
     (case v_Float v of
        Inl p \<Rightarrow> ([], Panicked p)
      | Inr f \<Rightarrow>
          (let val0 = f * (sz / 2);
               (fill, val) = (if val0 \<le> 0 then (''red'', - val0) else (''black'', val0));
               x = sz / 2;
               y = x
           in ([Circle x y val [(''fill'', fill), (''stroke'', fill)]], Success)))"

subsection \<open>boolEncoder\<close>

definition boolEncoder :: "real \<Rightarrow> rvalue \<Rightarrow> outcome" where
  "boolEncoder sz v =
     (case v_Bool v of
        Inl p \<Rightarrow> ([], Panicked p)
      | Inr val \<Rightarrow>
          (let factor = 0.25;
               factorD2 = factor / 2;
               h = sz * (1 - factor);
               sinY = 0.866 * h;
               x1 = sz * factorD2; x2 = sz / 2; x3 = sz * (1 - factorD2);
               (hi, lo, color) =
                  (if val = False then (sinY + x1, x1, ''red'') else (x1, sinY + x1, ''black''))
           in ([Polygon [(x1, lo), (x2, hi), (x3, lo)]
                  [(''stroke-width'', ''0''), (''fill'', color)]], Success)))"

section \<open>Composite encoders\<close>

text \<open>
  A composite encoder renders a child by calling \<^verbatim>\<open>enc.marshal\<close> on a fresh
  \<^verbatim>\<open>encodeState\<close> whose size is the size it was given itself. The encoders below take
  that method as their first argument \<open>marshal\<close>; the walker at the end of the section
  passes itself.
\<close>

type_synonym walker = "rvalue \<Rightarrow> outcome"

subsection \<open>ifaceEncoder, ptrEncoder, stringEncoder\<close>

definition ifaceEncoder :: "walker \<Rightarrow> real \<Rightarrow> rvalue \<Rightarrow> outcome" where
  "ifaceEncoder marshal sz v =
     (case v_Elem v of
        Inl p \<Rightarrow> ([], Panicked p)
      | Inr elem \<Rightarrow> marshal elem)"

definition ptrEncoder :: "walker \<Rightarrow> real \<Rightarrow> rvalue \<Rightarrow> outcome" where
  "ptrEncoder marshal sz v =
     (case v_Elem v of
        Inl p \<Rightarrow> ([], Panicked p)
      | Inr elem \<Rightarrow> if \<not> v_IsValid elem then ([], Success) else marshal elem)"

text \<open>\<^verbatim>\<open>reflect.ValueOf([]byte(s))\<close>.\<close>

definition bytesValue :: "8 word list \<Rightarrow> rvalue" where
  "bytesValue s = ValueOf (Some (VSlice (map (\<lambda>b. VUint TUint8 (ucast b)) s)))"

definition stringEncoder :: "walker \<Rightarrow> real \<Rightarrow> rvalue \<Rightarrow> outcome" where
  "stringEncoder marshal sz v =
     (case v_String v of
        Inl p \<Rightarrow> ([], Panicked p)
      | Inr s \<Rightarrow> marshal (bytesValue s))"

subsection \<open>The grid loop of structEncoder and sliceEncoder\<close>

text \<open>
  structEncoder and sliceEncoder end in the same loop, statement for statement; only the
  child differs (\<^verbatim>\<open>v.Field(i)\<close> or \<^verbatim>\<open>v.Index(i)\<close>). \<open>gridLoop\<close> is that loop
  from the current child on: \<open>x\<close> and \<open>y\<close> are the cell counters, \<open>g\<close> holds the
  children of the group \<^verbatim>\<open>g\<close> so far. Each child is drawn into a new group \<^verbatim>\<open>s\<close>
  of \<^verbatim>\<open>g\<close> that carries the translation and the scaling; the loop returns at the
  first child that does not return nil, with that child's drawing left in place.
\<close>

fun gridLoop ::
  "walker \<Rightarrow> real \<Rightarrow> real \<Rightarrow> nat \<Rightarrow> nat \<Rightarrow> nat \<Rightarrow> elem list \<Rightarrow> rvalue list \<Rightarrow> outcome" where
  "gridLoop marshal cellSz cellPt width x y g [] = (g, Success)"
| "gridLoop marshal cellSz cellPt width x y g (c # cs) =
     (let xF = real x * cellSz;
          yF = real y * cellSz;
          (drawn, errMarshal) = marshal c;
          g' = g @ [Group [Translate xF yF, Scale cellPt cellPt] drawn]
      in if errMarshal \<noteq> Success then (g', errMarshal)
         else if x + 1 = width then gridLoop marshal cellSz cellPt width 0 (y + 1) g' cs
         else gridLoop marshal cellSz cellPt width (x + 1) y g' cs)"

text \<open>\<^verbatim>\<open>int(math.Ceil(math.Sqrt(float64(n))))\<close>\<close>

definition gridWidth :: "nat \<Rightarrow> nat" where
  "gridWidth n = nat \<lceil>sqrt (real n)\<rceil>"

definition structEncoder :: "walker \<Rightarrow> real \<Rightarrow> rvalue \<Rightarrow> outcome" where
  "structEncoder marshal sz v =
     (case v_Fields v of
        Inl p \<Rightarrow> ([], Panicked p)
      | Inr fields \<Rightarrow>
          (let numFields = length fields
           in if numFields = 0 then ([], Success)
              else
                (let width = gridWidth numFields;
                     cellSz = sz / real width;
                     cellPt = 1 / real width;
                     (g, err) = gridLoop marshal cellSz cellPt width 0 0 [] fields
                 in ([Group [] g], err))))"

definition sliceEncoder :: "walker \<Rightarrow> real \<Rightarrow> rvalue \<Rightarrow> outcome" where
  "sliceEncoder marshal sz v =
     (case v_Indexes v of
        Inl p \<Rightarrow> ([], Panicked p)
      | Inr elems \<Rightarrow>
          (let len = length elems
           in if len = 0 then ([], Success)
              else
                (let width = gridWidth len;
                     cellSz = sz / real width;
                     cellPt = 1 / real width;
                     (g, err) = gridLoop marshal cellSz cellPt width 0 0 [] elems
                 in ([Group [] g], err))))"

subsection \<open>mapEncoder\<close>

text \<open>
  The local struct \<^verbatim>\<open>kvPair\<close>: four unexported fields of type \<^verbatim>\<open>interface{}\<close>.
\<close>

record kvPair =
  kv_k1 :: "val option"
  kv_v1 :: "val option"
  kv_k2 :: "val option"
  kv_v2 :: "val option"

definition zeroPair :: kvPair where
  "zeroPair = \<lparr>kv_k1 = None, kv_v1 = None, kv_k2 = None, kv_v2 = None\<rparr>"

text \<open>A \<^verbatim>\<open>kvPair\<close> as a Go value, and \<^verbatim>\<open>reflect.ValueOf(kvPairs)\<close>.\<close>

definition kvPairVal :: "kvPair \<Rightarrow> val" where
  "kvPairVal p =
     VStruct [Field False False (VInterface (kv_k1 p)), Field False False (VInterface (kv_v1 p)),
              Field False False (VInterface (kv_k2 p)), Field False False (VInterface (kv_v2 p))]"

definition kvPairsValue :: "kvPair list \<Rightarrow> rvalue" where
  "kvPairsValue kvPairs = ValueOf (Some (VSlice (map kvPairVal kvPairs)))"

text \<open>
  The loop \<^verbatim>\<open>for _, k := range keys\<close>, from the current key on, over the keys paired
  with their \<^verbatim>\<open>v.MapIndex(k)\<close>. It returns \<open>p\<close>, \<open>isOdd\<close> and \<open>kvPairs\<close> as the
  loop leaves them, or the panic of \<^verbatim>\<open>Interface()\<close>.
\<close>

fun mapLoop ::
  "(rvalue \<times> rvalue) list \<Rightarrow> kvPair \<Rightarrow> bool \<Rightarrow> kvPair list
     \<Rightarrow> panic + (kvPair \<times> bool \<times> kvPair list)" where
  "mapLoop [] p isOdd kvPairs = Inr (p, isOdd, kvPairs)"
| "mapLoop ((k, val) # keys) p isOdd kvPairs =
     (case v_Interface k of
        Inl pn \<Rightarrow> Inl pn
      | Inr ki \<Rightarrow>
          (case v_Interface val of
             Inl pn \<Rightarrow> Inl pn
           | Inr vi \<Rightarrow>
               if \<not> isOdd
               then mapLoop keys (p\<lparr>kv_k1 := ki, kv_v1 := vi\<rparr>) (\<not> isOdd) kvPairs
               else mapLoop keys (p\<lparr>kv_k2 := ki, kv_v2 := vi\<rparr>) (\<not> isOdd)
                      (kvPairs @ [p\<lparr>kv_k2 := ki, kv_v2 := vi\<rparr>])))"

text \<open>
  Everything of \<^verbatim>\<open>mapEncoder\<close> before its last statement: the synthetic records, or
  \<open>Inr None\<close> for the early return on a map without keys.
\<close>

definition mapPairs :: "rvalue \<Rightarrow> panic + kvPair list option" where
  "mapPairs v =
     (case v_MapKeys v of
        Inl pn \<Rightarrow> Inl pn
      | Inr keys \<Rightarrow>
          if length keys = 0 then Inr None
          else
            (case mapLoop keys zeroPair False [] of
               Inl pn \<Rightarrow> Inl pn
             | Inr (p, isOdd, kvPairs) \<Rightarrow>
                 Inr (Some (if \<not> isOdd then kvPairs @ [p] else kvPairs))))"

definition mapEncoder :: "walker \<Rightarrow> real \<Rightarrow> rvalue \<Rightarrow> outcome" where
  "mapEncoder marshal sz v =
     (case mapPairs v of
        Inl pn \<Rightarrow> ([], Panicked pn)
      | Inr None \<Rightarrow> ([], Success)
      | Inr (Some kvPairs) \<Rightarrow> sliceEncoder marshal sz (kvPairsValue kvPairs))"

section \<open>The walker\<close>

text \<open>
  \<open>depth\<close> bounds the nesting of a value. It weighs a string and a map by the nesting
  of the slices that stringEncoder and mapEncoder build from them, and is the measure
  under which the recursion of the walker ends.
\<close>

fun maxl :: "nat list \<Rightarrow> nat" where
  "maxl [] = 0"
| "maxl (n # ns) = max n (maxl ns)"

fun depth_opt :: "nat option \<Rightarrow> nat" where
  "depth_opt None = 0"
| "depth_opt (Some n) = n"

primrec depth :: "val \<Rightarrow> nat"
  and depth_field :: "field \<Rightarrow> nat"
  and depth_entry :: "entry \<Rightarrow> nat" where
  "depth (VInt t n) = 1"
| "depth (VUint t n) = 1"
| "depth (VFloat t x) = 1"
| "depth (VBool b) = 1"
| "depth (VString s) = 3"
| "depth (VStruct fs) = Suc (maxl (map depth_field fs))"
| "depth (VSlice xs) = Suc (maxl (map depth xs))"
| "depth (VMap es) = 4 + maxl (map depth_entry es)"
| "depth (VInterface x) = Suc (depth_opt (map_option depth x))"
| "depth (VPtr x) = Suc (depth_opt (map_option depth x))"
| "depth (VOther t) = 1"
| "depth_field (Field e a d) = depth d"
| "depth_entry (Entry k v) = max (depth k) (depth v)"

fun rdepth :: "rvalue \<Rightarrow> nat" where
  "rdepth ZeroValue = 0"
| "rdepth (RValue fl d) = depth d"

lemma gridLoop_cong [fundef_cong]:
  "cs = cs' \<Longrightarrow> (\<And>c. c \<in> set cs' \<Longrightarrow> m c = m' c) \<Longrightarrow>
   gridLoop m cellSz cellPt width x y g cs = gridLoop m' cellSz cellPt width x y g cs'"
proof (induction cs' arbitrary: cs x y g)
  case Nil
  then show ?case by simp
next
  case (Cons c cs')
  then show ?case by (simp add: Let_def split: prod.split)
qed

lemma ifaceEncoder_cong [fundef_cong]:
  "v = v' \<Longrightarrow> (\<And>elem. v_Elem v' = Inr elem \<Longrightarrow> m elem = m' elem) \<Longrightarrow>
   ifaceEncoder m sz v = ifaceEncoder m' sz v'"
  by (simp add: ifaceEncoder_def split: sum.split)

lemma ptrEncoder_cong [fundef_cong]:
  "v = v' \<Longrightarrow> (\<And>elem. v_Elem v' = Inr elem \<Longrightarrow> v_IsValid elem \<Longrightarrow> m elem = m' elem) \<Longrightarrow>
   ptrEncoder m sz v = ptrEncoder m' sz v'"
  by (simp add: ptrEncoder_def split: sum.split)

lemma stringEncoder_cong [fundef_cong]:
  "v = v' \<Longrightarrow> (\<And>s. v_String v' = Inr s \<Longrightarrow> m (bytesValue s) = m' (bytesValue s)) \<Longrightarrow>
   stringEncoder m sz v = stringEncoder m' sz v'"
  by (simp add: stringEncoder_def split: sum.split)

lemma structEncoder_cong [fundef_cong]:
  assumes "v = v'"
    and H: "\<And>fields c. v_Fields v' = Inr fields \<Longrightarrow> c \<in> set fields \<Longrightarrow> m c = m' c"
  shows "structEncoder m sz v = structEncoder m' sz v'"
proof (cases "v_Fields v'")
  case (Inl p)
  with assms(1) show ?thesis by (simp add: structEncoder_def)
next
  case (Inr fields)
  have "gridLoop m a b w 0 0 [] fields = gridLoop m' a b w 0 0 [] fields" for a b w
    using H [OF Inr] by (intro gridLoop_cong) auto
  with assms(1) Inr show ?thesis by (simp add: structEncoder_def Let_def)
qed

lemma sliceEncoder_cong [fundef_cong]:
  assumes "v = v'"
    and H: "\<And>elems c. v_Indexes v' = Inr elems \<Longrightarrow> c \<in> set elems \<Longrightarrow> m c = m' c"
  shows "sliceEncoder m sz v = sliceEncoder m' sz v'"
proof (cases "v_Indexes v'")
  case (Inl p)
  with assms(1) show ?thesis by (simp add: sliceEncoder_def)
next
  case (Inr elems)
  have "gridLoop m a b w 0 0 [] elems = gridLoop m' a b w 0 0 [] elems" for a b w
    using H [OF Inr] by (intro gridLoop_cong) auto
  with assms(1) Inr show ?thesis by (simp add: sliceEncoder_def Let_def)
qed

lemma mapEncoder_cong [fundef_cong]:
  "v = v' \<Longrightarrow>
   (\<And>kvPairs p. mapPairs v' = Inr (Some kvPairs) \<Longrightarrow> p \<in> set kvPairs \<Longrightarrow>
      m (RValue NotRO (kvPairVal p)) = m' (RValue NotRO (kvPairVal p))) \<Longrightarrow>
   mapEncoder m sz v = mapEncoder m' sz v'"
  by (auto simp: mapEncoder_def kvPairsValue_def split: sum.split option.split
           intro!: sliceEncoder_cong)

text \<open>
  \<^verbatim>\<open>(e *encodeState) marshal\<close>: look the encoder up and call it. \<open>sz\<close> is
  \<^verbatim>\<open>e.size\<close>; what the call draws is appended to \<^verbatim>\<open>e.Group\<close>.
\<close>

function marshal :: "real \<Rightarrow> rvalue \<Rightarrow> outcome" where
  "marshal sz v =
     (case valueEncoder v of
        Inl p \<Rightarrow> ([], Panicked p)
      | Inr (Inl err) \<Rightarrow> ([], Failure err)
      | Inr (Inr f) \<Rightarrow>
          (case f of
             IntEncoder \<Rightarrow> intEncoder sz v
           | ByteEncoder \<Rightarrow> byteEncoder sz v
           | FloatEncoder \<Rightarrow> floatEncoder sz v
           | BoolEncoder \<Rightarrow> boolEncoder sz v
           | StringEncoder \<Rightarrow> stringEncoder (\<lambda>c. marshal sz c) sz v
           | StructEncoder \<Rightarrow> structEncoder (\<lambda>c. marshal sz c) sz v
           | SliceEncoder \<Rightarrow> sliceEncoder (\<lambda>c. marshal sz c) sz v
           | MapEncoder \<Rightarrow> mapEncoder (\<lambda>c. marshal sz c) sz v
           | IfaceEncoder \<Rightarrow> ifaceEncoder (\<lambda>c. marshal sz c) sz v
           | PtrEncoder \<Rightarrow> ptrEncoder (\<lambda>c. marshal sz c) sz v))"
  by pat_completeness auto

lemma maxl_ge: "x \<in> set xs \<Longrightarrow> f x \<le> maxl (map f xs)"
  by (induction xs) auto

lemma rdepth_bytesValue: "rdepth (bytesValue s) \<le> 2"
proof -
  have "maxl (map depth (map (\<lambda>b. VUint TUint8 (ucast b)) s)) \<le> 1"
    by (induction s) auto
  then show ?thesis by (simp add: bytesValue_def)
qed

lemma rdepth_String: "v_String v = Inr s \<Longrightarrow> rdepth (bytesValue s) < rdepth v"
  using rdepth_bytesValue [of s] by (cases v rule: v_String.cases) auto

lemma rdepth_Fields: "v_Fields v = Inr cs \<Longrightarrow> c \<in> set cs \<Longrightarrow> rdepth c < rdepth v"
proof (cases v rule: v_Fields.cases)
  case (1 fl fs)
  assume "v_Fields v = Inr cs" and "c \<in> set cs"
  with 1 obtain f where f: "f \<in> set fs" and c: "c = fieldValue fl f"
    by auto
  have "depth (fval f) = depth_field f" by (cases f) simp
  with maxl_ge [OF f, of depth_field] 1 c show ?thesis by (simp add: fieldValue_def)
qed auto

lemma rdepth_Indexes: "v_Indexes v = Inr cs \<Longrightarrow> c \<in> set cs \<Longrightarrow> rdepth c < rdepth v"
proof (cases v rule: v_Indexes.cases)
  case (1 fl xs)
  assume "v_Indexes v = Inr cs" and "c \<in> set cs"
  with 1 obtain d where d: "d \<in> set xs" and c: "c = RValue (ro fl) d"
    by auto
  with maxl_ge [OF d, of depth] 1 show ?thesis by simp
qed auto

lemma rdepth_Elem: "v_Elem v = Inr elem \<Longrightarrow> rdepth elem < rdepth v"
  by (cases v rule: v_Elem.cases) auto

text \<open>The nesting of what an \<^verbatim>\<open>interface{}\<close> holds, 0 for nil.\<close>

definition idepth :: "val option \<Rightarrow> nat" where
  "idepth x = depth_opt (map_option depth x)"

definition pair_bound :: "nat \<Rightarrow> kvPair \<Rightarrow> bool" where
  "pair_bound M p =
     (idepth (kv_k1 p) \<le> M \<and> idepth (kv_v1 p) \<le> M \<and> idepth (kv_k2 p) \<le> M \<and> idepth (kv_v2 p) \<le> M)"

lemma idepth_Interface: "v_Interface v = Inr x \<Longrightarrow> idepth x \<le> rdepth v"
  by (cases v rule: v_Interface.cases) (auto simp: idepth_def)

lemma mapLoop_bound:
  "mapLoop keys p isOdd kvPairs = Inr (p', isOdd', kvPairs') \<Longrightarrow>
   \<forall>(k, val) \<in> set keys. rdepth k \<le> M \<and> rdepth val \<le> M \<Longrightarrow>
   pair_bound M p \<Longrightarrow> \<forall>q \<in> set kvPairs. pair_bound M q \<Longrightarrow>
   pair_bound M p' \<and> (\<forall>q \<in> set kvPairs'. pair_bound M q)"
proof (induction keys p isOdd kvPairs rule: mapLoop.induct)
  case (1 p isOdd kvPairs)
  then show ?case by simp
next
  case (2 k val keys p isOdd kvPairs)
  from "2.prems"(1) obtain ki vi where ki: "v_Interface k = Inr ki" and vi: "v_Interface val = Inr vi"
    by (auto split: sum.splits)
  from "2.prems"(2) have kb: "rdepth k \<le> M" and vb: "rdepth val \<le> M" by auto
  from idepth_Interface [OF ki] kb have kib: "idepth ki \<le> M" by simp
  from idepth_Interface [OF vi] vb have vib: "idepth vi \<le> M" by simp
  from "2.prems"(2) have rest: "\<forall>(k, val) \<in> set keys. rdepth k \<le> M \<and> rdepth val \<le> M"
    by simp
  show ?case
  proof (cases isOdd)
    case False
    have pb: "pair_bound M (p\<lparr>kv_k1 := ki, kv_v1 := vi\<rparr>)"
      using "2.prems"(3) kib vib by (simp add: pair_bound_def)
    from "2.prems"(1) ki vi False
    have run: "mapLoop keys (p\<lparr>kv_k1 := ki, kv_v1 := vi\<rparr>) (\<not> isOdd) kvPairs = Inr (p', isOdd', kvPairs')"
      by simp
    from "2.IH"(1) [OF ki vi _ run rest pb "2.prems"(4)] False show ?thesis by simp
  next
    case True
    have pb: "pair_bound M (p\<lparr>kv_k2 := ki, kv_v2 := vi\<rparr>)"
      using "2.prems"(3) kib vib by (simp add: pair_bound_def)
    from "2.prems"(4) pb
    have accb: "\<forall>q \<in> set (kvPairs @ [p\<lparr>kv_k2 := ki, kv_v2 := vi\<rparr>]). pair_bound M q"
      by simp
    from "2.prems"(1) ki vi True
    have run: "mapLoop keys (p\<lparr>kv_k2 := ki, kv_v2 := vi\<rparr>) (\<not> isOdd)
                 (kvPairs @ [p\<lparr>kv_k2 := ki, kv_v2 := vi\<rparr>]) = Inr (p', isOdd', kvPairs')"
      by simp
    from "2.IH"(2) [OF ki vi _ run rest pb accb] True show ?thesis by simp
  qed
qed

lemma depth_kvPairVal: "pair_bound M p \<Longrightarrow> depth (kvPairVal p) \<le> M + 2"
  by (simp add: kvPairVal_def pair_bound_def idepth_def)

lemma rdepth_mapPairs:
  assumes "mapPairs v = Inr (Some kvPairs)" and "p \<in> set kvPairs"
  shows "depth (kvPairVal p) < rdepth v"
proof -
  from assms(1) obtain fl es where 1: "v = RValue fl (VMap es)"
    by (cases v rule: v_MapKeys.cases) (auto simp: mapPairs_def)
  define M where "M = maxl (map depth_entry es)"
  define keys where "keys = map (\<lambda>e. (RValue (ro fl) (ekey e), RValue (ro fl) (evalue e))) es"
  have kb: "\<forall>(k, val) \<in> set keys. rdepth k \<le> M \<and> rdepth val \<le> M"
  proof -
    have "depth (ekey e) \<le> M \<and> depth (evalue e) \<le> M" if "e \<in> set es" for e
    proof -
      have "depth_entry e = max (depth (ekey e)) (depth (evalue e))" by (cases e) simp
      with maxl_ge [OF that, of depth_entry] show ?thesis by (simp add: M_def)
    qed
    then show ?thesis by (auto simp: keys_def)
  qed
  from assms(1) 1 obtain p' isOdd' acc where
    run: "mapLoop keys zeroPair False [] = Inr (p', isOdd', acc)"
    and res: "kvPairs = (if \<not> isOdd' then acc @ [p'] else acc)"
    by (auto simp: mapPairs_def keys_def split: if_splits sum.splits)
  have "pair_bound M zeroPair" by (simp add: pair_bound_def zeroPair_def idepth_def)
  from mapLoop_bound [OF run kb this] have "pair_bound M p'" and "\<forall>q \<in> set acc. pair_bound M q"
    by simp_all
  with res assms(2) have "pair_bound M p" by (auto split: if_splits)
  from depth_kvPairVal [OF this] 1 show ?thesis by (simp add: M_def)
qed

termination marshal
proof (relation "measure (\<lambda>(sz, v). rdepth v)", goal_cases)
  case 1
  show ?case by simp
next
  case (2 sz v b ba s)
  then show ?case by (simp add: rdepth_String)
next
  case (3 sz v b ba fields c)
  then show ?case by (simp add: rdepth_Fields)
next
  case (4 sz v b ba elems c)
  then show ?case by (simp add: rdepth_Indexes)
next
  case (5 sz v b ba kvPairs p)
  then show ?case by (simp add: rdepth_mapPairs)
next
  case (6 sz v b ba elem)
  then show ?case by (simp add: rdepth_Elem)
next
  case (7 sz v b ba elem)
  then show ?case by (simp add: rdepth_Elem)
qed

declare marshal.simps [simp del]

section \<open>Marshal\<close>

text \<open>
  The document \<^verbatim>\<open>gosvg.NewSVG(size, size)\<close> with its children, and how a call of
  \<^verbatim>\<open>Marshal\<close> ends: it returns the pair of Go (a nil slice is \<open>[]\<close>), panics, or
  does not return. \<^verbatim>\<open>s.Render\<close> belongs to gosvg and is a parameter.
\<close>

datatype svg = SVG real real "elem list"

datatype result = Returns "8 word list" "error option" | Panics panic | NeverReturns

definition Marshal :: "(svg \<Rightarrow> 8 word list) \<Rightarrow> val option \<Rightarrow> real \<Rightarrow> result" where
  "Marshal Render i sz =
     (if sz \<le> 0 then Returns [] (Some InvalidSize)
      else
        (case marshal sz (ValueOf i) of
           (g, Failure err) \<Rightarrow> Returns [] (Some err)
         | (g, Panicked p) \<Rightarrow> Panics p
         | (g, Diverged) \<Rightarrow> NeverReturns
         | (g, Success) \<Rightarrow> Returns (Render (SVG sz sz [Group [] g])) None))"

section \<open>The grid, as the specification words it\<close>

text \<open>
  The walker is fail-fast: a composite stops at the first child whose encoding does not
  return success, and what was drawn up to there stays. \<open>attempted\<close> are the
  children a composite reaches (all of them, or those up to and including the first
  that fails), \<open>firstError\<close> is the status it ends with.
\<close>

fun attempted :: "walker \<Rightarrow> rvalue list \<Rightarrow> rvalue list" where
  "attempted m [] = []"
| "attempted m (c # cs) = (if snd (m c) \<noteq> Success then [c] else c # attempted m cs)"

fun firstError :: "walker \<Rightarrow> rvalue list \<Rightarrow> status" where
  "firstError m [] = Success"
| "firstError m (c # cs) = (if snd (m c) \<noteq> Success then snd (m c) else firstError m cs)"

text \<open>
  The layout the specification gives for \<open>n\<close> children \<open>cs\<close> in a region of side
  \<open>S\<close>: \<open>width = ceil (sqrt n)\<close>, cell side \<open>C = S / width\<close>, child \<open>i\<close> in the
  cell \<open>(i mod width, i div width)\<close>, in a group translated by \<open>(col * C, row * C)\<close>
  and scaled by \<open>C / S\<close> that holds the child's own drawing. \<open>gridSpec\<close> is what a
  composite returns under that layout: nothing and success for no children,
  otherwise one group with the cells of the children reached, and the status.
\<close>

definition gridCell :: "walker \<Rightarrow> real \<Rightarrow> rvalue list \<Rightarrow> nat \<Rightarrow> elem" where
  "gridCell m S cs i =
     (let n = length cs;
          width = nat \<lceil>sqrt (real n)\<rceil>;
          C = S / real width
      in Group [Translate (real (i mod width) * C) (real (i div width) * C), Scale (C / S) (C / S)]
           (fst (m (cs ! i))))"

definition gridSpec :: "walker \<Rightarrow> real \<Rightarrow> rvalue list \<Rightarrow> outcome" where
  "gridSpec m S cs =
     (if cs = [] then ([], Success)
      else ([Group [] (map (gridCell m S cs) [0..<length (attempted m cs)])], firstError m cs))"

text \<open>The cells of the loop by running index, for the proofs.\<close>

fun cells :: "walker \<Rightarrow> real \<Rightarrow> real \<Rightarrow> nat \<Rightarrow> nat \<Rightarrow> rvalue list \<Rightarrow> elem list" where
  "cells m cellSz cellPt w i [] = []"
| "cells m cellSz cellPt w i (c # cs) =
     Group [Translate (real (i mod w) * cellSz) (real (i div w) * cellSz), Scale cellPt cellPt]
       (fst (m c))
     # cells m cellSz cellPt w (Suc i) cs"

text \<open>
  \<open>gridWidth\<close> by search, for evaluation: the least \<open>w\<close> from the given one on with
  \<open>n \<le> w * w\<close>.
\<close>

function gridWidthFrom :: "nat \<Rightarrow> nat \<Rightarrow> nat" where
  "gridWidthFrom w n = (if n \<le> w * w then w else gridWidthFrom (Suc w) n)"
  by pat_completeness auto

termination gridWidthFrom
  by (relation "measure (\<lambda>(w, n). n - w * w)") auto

declare gridWidthFrom.simps [simp del]

section \<open>Bars and scalars\<close>

text \<open>
  The bar \<^verbatim>\<open>byteEncoder\<close> draws for bit \<open>i\<close> in a region of side \<open>sz\<close>. The region
  has 8 rows of height \<open>h = sz / 8\<close>; with rows counted from the top (the y axis of
  SVG points down), the row of bit \<open>i\<close> is row \<open>7 - i\<close>, so bit 0 has the lowest
  row. With \<open>margin = 0.1 h\<close>, the rectangle has its left edge at \<open>margin\<close>, its top
  edge \<open>margin\<close> above the top of the row, the width \<open>sz - margin\<close> (it ends at the
  right edge of the region) and the height \<open>0.8 h\<close>.
\<close>

definition byteBar :: "real \<Rightarrow> nat \<Rightarrow> elem" where
  "byteBar sz i =
     (let h = sz / 8; margin = h * 0.1
      in Rect margin (real (7 - i) * h - margin) (sz - margin) (h * 0.8)
           [(''stroke-width'', ''0''), (''fill'', ''black'')])"

text \<open>The values with a leaf encoder: signed integers, bytes, floats, booleans, text.\<close>

fun scalar :: "val \<Rightarrow> bool" where
  "scalar (VInt t n) = True"
| "scalar (VUint t n) = (t = TUint8)"
| "scalar (VFloat t x) = True"
| "scalar (VBool b) = True"
| "scalar (VString s) = True"
| "scalar d = False"

section \<open>Properties\<close>

subsection \<open>The cache is transparent\<close>

lemma cache_ok_empty: "cache_ok Map.empty"
  by (simp add: cache_ok_def)

lemma typeEncoder_cached_result:
  "cache_ok m \<Longrightarrow> fst (typeEncoder_cached m t) = typeEncoder t"
  by (auto simp: typeEncoder_cached_def typeEncoder_def cache_ok_def split: option.split sum.split)

lemma typeEncoder_cached_ok:
  "cache_ok m \<Longrightarrow> cache_ok (snd (typeEncoder_cached m t))"
  by (auto simp: typeEncoder_cached_def cache_ok_def split: option.split sum.split)

subsection \<open>The walker, kind by kind\<close>

lemma marshal_Zero: "marshal sz ZeroValue = ([], Panicked PanicInvalidValue)"
  by (simp add: marshal.simps valueEncoder_def)

lemma marshal_VInt: "marshal sz (RValue fl (VInt t n)) = intEncoder sz (RValue fl (VInt t n))"
  by (cases t) (simp_all add: marshal.simps valueEncoder_def typeEncoder_def)

lemma marshal_VUint8:
  "marshal sz (RValue fl (VUint TUint8 n)) = byteEncoder sz (RValue fl (VUint TUint8 n))"
  by (simp add: marshal.simps valueEncoder_def typeEncoder_def)

lemma marshal_VUint_other:
  "t \<noteq> TUint8 \<Longrightarrow>
   marshal sz (RValue fl (VUint t n)) = ([], Failure (UnsupportedTypeError (kind_of (VUint t n))))"
  by (cases t) (simp_all add: marshal.simps valueEncoder_def typeEncoder_def)

lemma marshal_VFloat: "marshal sz (RValue fl (VFloat t x)) = floatEncoder sz (RValue fl (VFloat t x))"
  by (cases t) (simp_all add: marshal.simps valueEncoder_def typeEncoder_def)

lemma marshal_VBool: "marshal sz (RValue fl (VBool b)) = boolEncoder sz (RValue fl (VBool b))"
  by (simp add: marshal.simps valueEncoder_def typeEncoder_def)

lemma marshal_VString: "marshal sz (RValue fl (VString s)) = marshal sz (bytesValue s)"
  by (simp add: marshal.simps [of sz "RValue fl (VString s)"] valueEncoder_def typeEncoder_def
        stringEncoder_def)

lemma marshal_VStruct:
  "marshal sz (RValue fl (VStruct fs)) = structEncoder (marshal sz) sz (RValue fl (VStruct fs))"
  by (simp add: marshal.simps [of sz "RValue fl (VStruct fs)"] valueEncoder_def typeEncoder_def)

lemma marshal_VSlice:
  "marshal sz (RValue fl (VSlice xs)) = sliceEncoder (marshal sz) sz (RValue fl (VSlice xs))"
  by (simp add: marshal.simps [of sz "RValue fl (VSlice xs)"] valueEncoder_def typeEncoder_def)

lemma marshal_VMap:
  "marshal sz (RValue fl (VMap es)) = mapEncoder (marshal sz) sz (RValue fl (VMap es))"
  by (simp add: marshal.simps [of sz "RValue fl (VMap es)"] valueEncoder_def typeEncoder_def)

lemma marshal_VInterface:
  "marshal sz (RValue fl (VInterface x)) = ifaceEncoder (marshal sz) sz (RValue fl (VInterface x))"
  by (simp add: marshal.simps [of sz "RValue fl (VInterface x)"] valueEncoder_def typeEncoder_def)

lemma marshal_VPtr:
  "marshal sz (RValue fl (VPtr x)) = ptrEncoder (marshal sz) sz (RValue fl (VPtr x))"
  by (simp add: marshal.simps [of sz "RValue fl (VPtr x)"] valueEncoder_def typeEncoder_def)

lemma marshal_VOther:
  "marshal sz (RValue fl (VOther t)) = ([], Failure (UnsupportedTypeError (kind_of (VOther t))))"
  by (cases t) (simp_all add: marshal.simps valueEncoder_def typeEncoder_def)

lemmas marshal_kinds =
  marshal_Zero marshal_VInt marshal_VUint8 marshal_VUint_other marshal_VFloat marshal_VBool
  marshal_VString marshal_VStruct marshal_VSlice marshal_VMap marshal_VInterface marshal_VPtr
  marshal_VOther

lemmas leaf_defs =
  intEncoder_def intRows.simps intCols.simps intBit_def signed_modulo_int_def
  byteEncoder_def byteRows.simps byteBit_def floatEncoder_def boolEncoder_def

lemmas composite_defs =
  structEncoder_def sliceEncoder_def mapEncoder_def mapPairs_def ptrEncoder_def
  ifaceEncoder_def bytesValue_def kvPairsValue_def kvPairVal_def zeroPair_def

lemma whole_size_96: "whole_size 96"
  by (simp add: whole_size_def)

lemma whole_size_pos: "whole_size sz \<Longrightarrow> 0 < sz"
  by (simp add: whole_size_def)

subsection \<open>Invalid values\<close>

text \<open>
  C1. The specification: encoding an invalid value returns an InvalidValue error, errors are
  handed up unchanged, and the walker ends abnormally in no other way. The code does
  not return the error: \<^verbatim>\<open>valueEncoder\<close> panics with it, in front of the statement that
  would return it. For \<^verbatim>\<open>Marshal(nil, 96)\<close> the Value is the zero Value, and the call
  panics; so does the walker on a nil interface inside a slice.
\<close>

theorem invalid_value_panics:
  "valueEncoder ZeroValue = Inl PanicInvalidValue
   \<and> Marshal Render None 96 = Panics PanicInvalidValue
   \<and> snd (marshal 96 (RValue NotRO (VSlice [VInterface None]))) = Panicked PanicInvalidValue"
  by (simp add: valueEncoder_def Marshal_def marshal_kinds composite_defs gridWidth_def Let_def)

subsection \<open>Maps\<close>

text \<open>
  C2. The specification: a map with k entries gives ceil(k/2) synthetic records, the last one
  with an unset second pair when k is odd. The code appends the pending record after
  the loop when \<open>isOdd\<close> is false, that is when no record is pending: a map with one
  entry gives no record at all and nothing is drawn, and a map with two entries gives
  its one record twice.
\<close>

theorem map_pending_pair_dropped:
  "mapPairs (RValue NotRO (VMap [Entry (VInt TInt 1) (VInt TInt 1)])) = Inr (Some [])
   \<and> marshal 96 (RValue NotRO (VMap [Entry (VInt TInt 1) (VInt TInt 1)])) = ([], Success)
   \<and> mapPairs (RValue NotRO (VMap [Entry (VInt TInt 1) (VInt TInt 1),
                                     Entry (VInt TInt 2) (VInt TInt 3)])) =
       Inr (Some [\<lparr>kv_k1 = Some (VInt TInt 1), kv_v1 = Some (VInt TInt 1),
                    kv_k2 = Some (VInt TInt 2), kv_v2 = Some (VInt TInt 3)\<rparr>,
                  \<lparr>kv_k1 = Some (VInt TInt 1), kv_v1 = Some (VInt TInt 1),
                    kv_k2 = Some (VInt TInt 2), kv_v2 = Some (VInt TInt 3)\<rparr>])"
  by (simp add: marshal_kinds composite_defs Let_def)

subsection \<open>Signed integers\<close>

text \<open>
  C3. The specification: the magnitude is drawn as an 8 by 8 matrix of bits, row-major from the
  bottom-right cell. Both loops of \<^verbatim>\<open>intEncoder\<close> run while the coordinate is
  \<^verbatim>\<open>> 0\<close> and so stop before the row and the column at 0: the matrix is 7 by 7. At
  size 96 the cell side is 12; bit 7 of 128 is drawn in the rightmost column of the
  second row from the bottom (x = 84.6, y = 71.4) where an 8 by 8 matrix has it in the
  leftmost column of the bottom row, and bit 49 of 2^49 is not drawn at all.
\<close>

theorem int_matrix_seven_by_seven:
  "intEncoder 96 (RValue NotRO (VInt TInt 128)) =
     ([Rect (423 / 5) (357 / 5) (54 / 5) (54 / 5)
         [(''stroke-width'', ''0''), (''fill'', ''black'')]], Success)
   \<and> intEncoder 96 (RValue NotRO (VInt TInt (2 ^ 49))) = ([], Success)"
  by (simp add: leaf_defs Let_def)

subsection \<open>Unsigned integers\<close>

text \<open>
  C10. A value of kind uint, uint16, uint32, uint64 or uintptr has no encoder: the
  switch of \<^verbatim>\<open>newTypeEncoder\<close> falls to its default and returns
  \<^verbatim>\<open>UnsupportedTypeError\<close> with the type, on any cache the package can have built, and
  the walker returns that error without drawing. Every signed kind has \<^verbatim>\<open>intEncoder\<close>
  and uint8 has \<^verbatim>\<open>byteEncoder\<close>.
\<close>

theorem unsigned_kinds_unsupported:
  "t \<noteq> TUint8 \<Longrightarrow> cache_ok m \<Longrightarrow>
     kind_of (VUint t n) \<in> {KUint, KUint16, KUint32, KUint64, KUintptr}
   \<and> newTypeEncoder (kind_of (VUint t n)) = Inl (UnsupportedTypeError (kind_of (VUint t n)))
   \<and> typeEncoder_cached m (kind_of (VUint t n)) = (Inl (UnsupportedTypeError (kind_of (VUint t n))), m)
   \<and> valueEncoder (RValue fl (VUint t n)) = Inr (Inl (UnsupportedTypeError (kind_of (VUint t n))))
   \<and> marshal sz (RValue fl (VUint t n)) = ([], Failure (UnsupportedTypeError (kind_of (VUint t n))))
   \<and> newTypeEncoder (kind_of (VInt t' n')) = Inr IntEncoder
   \<and> newTypeEncoder (kind_of (VUint TUint8 n')) = Inr ByteEncoder"
proof -
  assume t: "t \<noteq> TUint8" and m: "cache_ok m"
  have new: "newTypeEncoder (kind_of (VUint t n)) = Inl (UnsupportedTypeError (kind_of (VUint t n)))"
    using t by (cases t) simp_all
  have "m (kind_of (VUint t n)) = None"
  proof (cases "m (kind_of (VUint t n))")
    case (Some f)
    with m new show ?thesis by (simp add: cache_ok_def)
  qed simp
  with new have cached:
    "typeEncoder_cached m (kind_of (VUint t n)) = (Inl (UnsupportedTypeError (kind_of (VUint t n))), m)"
    by (simp add: typeEncoder_cached_def)
  have kinds: "kind_of (VUint t n) \<in> {KUint, KUint16, KUint32, KUint64, KUintptr}"
    using t by (cases t) simp_all
  have signed: "newTypeEncoder (kind_of (VInt t' n')) = Inr IntEncoder"
    by (cases t') simp_all
  from new cached kinds signed marshal_VUint_other [OF t] show ?thesis
    by (simp add: valueEncoder_def typeEncoder_def)
qed

theorem unsigned_kinds_unsupported_witness:
  "TUint16 \<noteq> TUint8 \<and> cache_ok Map.empty
   \<and> typeEncoder_cached Map.empty KUint16 = (Inl (UnsupportedTypeError KUint16), Map.empty)
   \<and> marshal 96 (RValue NotRO (VUint TUint16 7)) = ([], Failure (UnsupportedTypeError KUint16))
   \<and> newTypeEncoder KInt32 = Inr IntEncoder"
  using unsigned_kinds_unsupported [of TUint16 Map.empty 7 NotRO 96 TInt32 0]
  by (simp add: cache_ok_empty)

subsection \<open>Floating point\<close>

text \<open>
  C6, as the code has it. The specification wants a black circle for every value \<open>\<ge> 0\<close>;
  \<^verbatim>\<open>floatEncoder\<close> tests \<^verbatim>\<open>val <= 0\<close>, so the value 0 gives a red circle of radius 0.
\<close>

theorem float_zero_is_red:
  "floatEncoder 96 (RValue NotRO (VFloat TFloat64 0)) =
     ([Circle 48 48 0 [(''fill'', ''red''), (''stroke'', ''red'')]], Success)
   \<and> floatEncoder 96 (RValue NotRO (VFloat TFloat64 0)) \<noteq>
     ([Circle 48 48 0 [(''fill'', ''black''), (''stroke'', ''black'')]], Success)"
  by (simp add: floatEncoder_def Let_def)

text \<open>
  C6, amended: for a finite value \<open>v\<close> of magnitude at most \<open>2 ^ 900\<close> and a region
  whose side \<open>sz\<close> is a whole number with \<open>2 \<le> sz < 2 ^ 40\<close>, the encoder draws
  exactly one circle, centred in the region, of radius \<open>\<bar>v\<bar> * (sz / 2)\<close> (not
  clamped), black when \<open>v > 0\<close> and red when \<open>v \<le> 0\<close>. On these sizes the factor
  \<open>sz / 2\<close> is exact and at least 1, so the float64 product has the sign of \<open>v\<close> and
  does not overflow; the radius is the program's up to rounding.
\<close>

theorem floatEncoder_circle:
  "whole_size sz \<Longrightarrow> 2 \<le> sz \<Longrightarrow> \<bar>v\<bar> \<le> 2 ^ 900 \<Longrightarrow>
   floatEncoder sz (RValue fl (VFloat t v)) =
     ([Circle (sz / 2) (sz / 2) (\<bar>v\<bar> * (sz / 2))
         [(''fill'', if 0 < v then ''black'' else ''red''),
          (''stroke'', if 0 < v then ''black'' else ''red'')]], Success)"
proof -
  assume "whole_size sz"
  then have sz: "0 < sz" by (rule whole_size_pos)
  show ?thesis
  proof (cases "0 < v")
    case True
    with sz have "\<not> v * (sz / 2) \<le> 0" by (simp add: mult_le_0_iff)
    with True show ?thesis by (simp add: floatEncoder_def Let_def)
  next
    case False
    with sz have "v * (sz / 2) \<le> 0" by (simp add: mult_le_0_iff)
    with False show ?thesis by (simp add: floatEncoder_def Let_def)
  qed
qed

theorem floatEncoder_circle_witness:
  "whole_size 96 \<and> (2::real) \<le> 96 \<and> \<bar>- 1 / 2 :: real\<bar> \<le> 2 ^ 900
   \<and> floatEncoder 96 (RValue NotRO (VFloat TFloat64 (- 1 / 2))) =
       ([Circle 48 48 24 [(''fill'', ''red''), (''stroke'', ''red'')]], Success)"
proof -
  have small: "\<bar>- 1 / 2 :: real\<bar> \<le> 2 ^ 900"
  proof -
    have "(1::real) \<le> 2 ^ 900" by (rule one_le_power) simp
    then show ?thesis by simp
  qed
  have two: "(2::real) \<le> 96" by simp
  from floatEncoder_circle [OF whole_size_96 two small, of NotRO TFloat64] whole_size_96 small
  show ?thesis by simp
qed

subsection \<open>Indirection\<close>

text \<open>
  C7. The specification: an indirection that is unset draws nothing and returns success, and
  one that is set is encoded as what it holds, in the same region. \<^verbatim>\<open>ptrEncoder\<close>
  tests \<^verbatim>\<open>!elem.IsValid()\<close> and returns nil for a nil pointer. \<^verbatim>\<open>ifaceEncoder\<close> has no
  such test: for a nil interface it hands the zero Value to the walker, and the call
  does not return success but ends in the panic of \<^verbatim>\<open>valueEncoder\<close>. An interface
  Value arises as an element or a field: \<^verbatim>\<open>Marshal([]interface{}{nil}, 96)\<close> panics.
\<close>

theorem nil_interface_panics:
  "ifaceEncoder (marshal 96) 96 (RValue NotRO (VInterface None)) =
     ([], Panicked PanicInvalidValue)
   \<and> marshal 96 (RValue NotRO (VInterface None)) \<noteq> ([], Success)
   \<and> ptrEncoder (marshal 96) 96 (RValue NotRO (VPtr None)) = ([], Success)
   \<and> Marshal Render (Some (VSlice [VInterface None])) 96 = Panics PanicInvalidValue"
  by (simp add: Marshal_def marshal_kinds composite_defs gridWidth_def Let_def)

text \<open>
  What holds of indirection: a nil pointer draws nothing and returns success; a pointer
  or an interface that is set is unwrapped one level and the walker is called on what
  it holds with the same \<^verbatim>\<open>encodeState\<close> (same group, same size), for every walker
  the encoders are given and for \<open>marshal\<close> itself. The held value keeps the
  read-only bits of the pointer, and has those of the interface through \<^verbatim>\<open>ro()\<close>.
\<close>

lemma indirection_unwraps:
  "ptrEncoder m sz (RValue fl (VPtr None)) = ([], Success)
   \<and> ptrEncoder m sz (RValue fl (VPtr (Some d))) = m (RValue fl d)
   \<and> ifaceEncoder m sz (RValue fl (VInterface (Some d))) = m (RValue (ro fl) d)
   \<and> marshal sz (RValue fl (VPtr None)) = ([], Success)
   \<and> marshal sz (RValue fl (VPtr (Some d))) = marshal sz (RValue fl d)
   \<and> marshal sz (RValue fl (VInterface (Some d))) = marshal sz (RValue (ro fl) d)"
  by (simp add: marshal_VPtr marshal_VInterface ptrEncoder_def ifaceEncoder_def)

subsection \<open>The grid loop\<close>

lemma gridLoop_cells:
  "x < w \<Longrightarrow>
   gridLoop m cellSz cellPt w x y g cs =
     (g @ cells m cellSz cellPt w (y * w + x) (attempted m cs), firstError m cs)"
proof (induction cs arbitrary: x y g)
  case Nil
  then show ?case by simp
next
  case (Cons c cs)
  obtain drawn st where mc: "m c = (drawn, st)" by (cases "m c")
  from Cons.prems have pos: "(y * w + x) mod w = x" "(y * w + x) div w = y"
    by simp_all
  show ?case
  proof (cases "st = Success")
    case False
    with pos mc show ?thesis by (simp add: Let_def)
  next
    case True
    show ?thesis
    proof (cases "x + 1 = w")
      case wrap: True
      then have w: "0 < w" by simp
      from wrap have idx: "(y + 1) * w + 0 = Suc (y * w + x)" by simp
      have "gridLoop m cellSz cellPt w 0 (y + 1) g' cs =
              (g' @ cells m cellSz cellPt w ((y + 1) * w + 0) (attempted m cs), firstError m cs)"
        for g'
        by (rule Cons.IH) (fact w)
      then have step:
        "gridLoop m cellSz cellPt w 0 (y + 1) g' cs =
           (g' @ cells m cellSz cellPt w (Suc (y * w + x)) (attempted m cs), firstError m cs)"
        for g'
        by (simp only: idx)
      have "gridLoop m cellSz cellPt w x y g (c # cs) =
              gridLoop m cellSz cellPt w 0 (y + 1)
                (g @ [Group [Translate (real x * cellSz) (real y * cellSz), Scale cellPt cellPt] drawn]) cs"
        using wrap True mc by (simp add: Let_def)
      also note step
      finally show ?thesis using True pos mc by simp
    next
      case False
      with Cons.prems have "x + 1 < w" by simp
      from Cons.IH [OF this, of y] False True pos mc show ?thesis
        by (simp add: Let_def)
    qed
  qed
qed

lemma length_cells: "length (cells m cellSz cellPt w i cs) = length cs"
  by (induction cs arbitrary: i) simp_all

lemma nth_cells:
  "j < length cs \<Longrightarrow>
   cells m cellSz cellPt w i cs ! j =
     Group [Translate (real ((i + j) mod w) * cellSz) (real ((i + j) div w) * cellSz),
            Scale cellPt cellPt] (fst (m (cs ! j)))"
proof (induction cs arbitrary: i j)
  case Nil
  then show ?case by simp
next
  case (Cons c cs)
  then show ?case by (cases j) simp_all
qed

lemma length_attempted: "length (attempted m cs) \<le> length cs"
  by (induction cs) simp_all

lemma nth_attempted: "j < length (attempted m cs) \<Longrightarrow> attempted m cs ! j = cs ! j"
proof (induction cs arbitrary: j)
  case Nil
  then show ?case by simp
next
  case (Cons c cs)
  then show ?case by (cases j) (simp_all split: if_splits)
qed

lemma attempted_all: "firstError m cs = Success \<Longrightarrow> attempted m cs = cs"
  by (induction cs) (simp_all split: if_splits)

lemma firstError_Success: "(\<forall>c \<in> set cs. snd (m c) = Success) \<Longrightarrow> firstError m cs = Success"
  by (induction cs) simp_all

lemma gridWidth_eqI:
  assumes "0 < w" and "(w - 1) * (w - 1) < n" and "n \<le> w * w"
  shows "gridWidth n = w"
proof -
  have up: "sqrt (real n) \<le> real w"
  proof -
    have "real n \<le> (real w)\<^sup>2" using assms(3)
      by (metis of_nat_le_iff of_nat_mult power2_eq_square)
    then show ?thesis by (simp add: real_le_lsqrt)
  qed
  have lo: "real w - 1 < sqrt (real n)"
  proof -
    have "real ((w - 1) * (w - 1)) < real n" using assms(2) by (simp only: of_nat_less_iff)
    moreover have "real (w - 1) = real w - 1" using assms(1) by (simp add: of_nat_diff)
    ultimately have "(real w - 1)\<^sup>2 < real n" by (simp add: power2_eq_square)
    then show ?thesis by (rule real_less_rsqrt)
  qed
  have "\<lceil>sqrt (real n)\<rceil> = int w"
    using up lo by (intro ceiling_unique) simp_all
  then show ?thesis by (simp add: gridWidth_def)
qed

lemma gridWidthFrom_eq:
  "w = 0 \<or> (w - 1) * (w - 1) < n \<Longrightarrow> gridWidthFrom w n = gridWidth n"
proof (induction w n rule: gridWidthFrom.induct)
  case (1 w n)
  show ?case
  proof (cases "n \<le> w * w")
    case True
    then have run: "gridWidthFrom w n = w" by (subst gridWidthFrom.simps) simp
    show ?thesis
    proof (cases "w = 0")
      case True
      with \<open>n \<le> w * w\<close> run show ?thesis by (simp add: gridWidth_def)
    next
      case False
      with "1.prems" True have "gridWidth n = w" by (intro gridWidth_eqI) simp_all
      with run show ?thesis by simp
    qed
  next
    case False
    then have "gridWidthFrom w n = gridWidthFrom (Suc w) n"
      by (subst gridWidthFrom.simps) simp
    also from False have "\<dots> = gridWidth n" by (intro "1.IH") simp_all
    finally show ?thesis .
  qed
qed

lemma gridWidth_code [code]: "gridWidth n = gridWidthFrom 0 n"
  by (simp add: gridWidthFrom_eq)

lemma gridWidth_pos: "0 < n \<Longrightarrow> 0 < gridWidth n"
proof -
  assume "0 < n"
  then have "0 < sqrt (real n)" by simp
  then have "0 < \<lceil>sqrt (real n)\<rceil>" by (simp add: ceiling_less_iff)
  then show ?thesis by (simp add: gridWidth_def)
qed

text \<open>What the loop of structEncoder and sliceEncoder returns is the layout.\<close>

lemma gridLoop_gridSpec:
  assumes S: "0 < S" and cs: "cs \<noteq> []"
  shows "gridLoop m (S / real (gridWidth (length cs))) (1 / real (gridWidth (length cs)))
           (gridWidth (length cs)) 0 0 [] cs =
         (map (gridCell m S cs) [0..<length (attempted m cs)], firstError m cs)"
proof -
  define w where "w = gridWidth (length cs)"
  define C where "C = S / real w"
  from cs have w: "0 < w" by (simp add: w_def gridWidth_pos)
  have scale: "C / S = 1 / real w" using S by (simp add: C_def)
  have loop: "gridLoop m C (1 / real w) w 0 0 [] cs =
                (cells m C (1 / real w) w 0 (attempted m cs), firstError m cs)"
    using gridLoop_cells [OF w, of m C "1 / real w" 0 "[]" cs] by simp
  have cell: "gridCell m S cs i =
                Group [Translate (real (i mod w) * C) (real (i div w) * C), Scale (C / S) (C / S)]
                  (fst (m (cs ! i)))" for i
    by (simp add: gridCell_def Let_def w_def C_def gridWidth_def)
  have "cells m C (1 / real w) w 0 (attempted m cs) =
          map (gridCell m S cs) [0..<length (attempted m cs)]"
    by (rule nth_equalityI)
       (simp_all add: length_cells nth_cells nth_attempted cell scale)
  with loop show ?thesis by (simp add: w_def C_def)
qed

lemma structEncoder_gridSpec:
  assumes "0 < S"
  shows "structEncoder m S (RValue fl (VStruct fs)) = gridSpec m S (map (fieldValue fl) fs)"
proof (cases "fs = []")
  case True
  then show ?thesis by (simp add: structEncoder_def gridSpec_def)
next
  case False
  then have "map (fieldValue fl) fs \<noteq> []" by simp
  from gridLoop_gridSpec [OF assms this, of m] False show ?thesis
    by (simp add: structEncoder_def gridSpec_def Let_def)
qed

lemma sliceEncoder_gridSpec:
  assumes "0 < S"
  shows "sliceEncoder m S (RValue fl (VSlice xs)) = gridSpec m S (map (RValue (ro fl)) xs)"
proof (cases "xs = []")
  case True
  then show ?thesis by (simp add: sliceEncoder_def gridSpec_def)
next
  case False
  then have "map (RValue (ro fl)) xs \<noteq> []" by simp
  from gridLoop_gridSpec [OF assms this, of m] False show ?thesis
    by (simp add: sliceEncoder_def gridSpec_def Let_def)
qed

lemma all_attempted:
  "(\<forall>c \<in> set cs. snd (m c) = Success) \<Longrightarrow> attempted m cs = cs \<and> firstError m cs = Success"
  by (induction cs) simp_all

lemma gridWidth_1: "gridWidth (Suc 0) = 1"
  by (simp add: gridWidth_def)

lemma gridWidth_2: "gridWidth (Suc (Suc 0)) = 2"
  by (rule gridWidth_eqI) simp_all

lemma gridWidth_3: "gridWidth (Suc (Suc (Suc 0))) = 2"
  by (rule gridWidth_eqI) simp_all

lemmas gridWidth_small = gridWidth_1 gridWidth_2 gridWidth_3

lemma ceil_sqrt_small:
  "\<lceil>sqrt 2\<rceil> = 2" "\<lceil>sqrt 3\<rceil> = 2"
proof -
  have "nat \<lceil>sqrt (real (Suc (Suc 0)))\<rceil> = 2" "nat \<lceil>sqrt (real (Suc (Suc (Suc 0))))\<rceil> = 2"
    using gridWidth_2 gridWidth_3 by (simp_all only: gridWidth_def)
  then have "nat \<lceil>sqrt 2\<rceil> = 2" "nat \<lceil>sqrt 3\<rceil> = 2" by simp_all
  then show "\<lceil>sqrt 2\<rceil> = 2" "\<lceil>sqrt 3\<rceil> = 2" by linarith+
qed

lemmas grid_eval =
  gridSpec_def gridCell_def gridWidth_small ceil_sqrt_small upt_rec fieldValue_def

subsection \<open>Grid subdivision\<close>

text \<open>
  C8. For a record with fields \<open>fs\<close> and for a sequence with elements \<open>xs\<close>, in a
  region of side \<open>S > 0\<close> and with any walker \<open>m\<close> for the children, what the encoder
  returns is exactly the layout of the specification over the children in their
  order: for no child, nothing and success; otherwise one group with, for each child
  \<open>i\<close> reached, the group translated by \<open>(col * C, row * C)\<close> and scaled by \<open>C / S\<close>
  that holds the child's drawing, where \<open>width = ceil (sqrt n)\<close>, \<open>C = S / width\<close>,
  \<open>col = i mod width\<close>, \<open>row = i div width\<close>; the status is that of the first child
  that fails, and success when none does. When every child's encoding succeeds, the
  group holds the cells of all \<open>n\<close> children and the status is success. The children
  of a record are its fields as \<^verbatim>\<open>v.Field(i)\<close> gives them, those of a sequence its
  elements as \<^verbatim>\<open>v.Index(i)\<close> does.
\<close>

theorem composite_grid_layout:
  "0 < S \<Longrightarrow>
     structEncoder m S (RValue fl (VStruct fs)) = gridSpec m S (map (fieldValue fl) fs)
   \<and> sliceEncoder m S (RValue fl (VSlice xs)) = gridSpec m S (map (RValue (ro fl)) xs)
   \<and> ((\<forall>c \<in> set cs. snd (m c) = Success) \<longrightarrow> cs \<noteq> [] \<longrightarrow>
        gridSpec m S cs = ([Group [] (map (gridCell m S cs) [0..<length cs])], Success))"
  by (simp add: structEncoder_gridSpec sliceEncoder_gridSpec all_attempted gridSpec_def)

theorem composite_grid_layout_witness:
  "(0::real) < 96
   \<and> snd (marshal 96 (RValue NotRO (VBool True))) = Success
   \<and> snd (marshal 96 (RValue NotRO (VBool False))) = Success
   \<and> structEncoder (marshal 96) 96
       (RValue NotRO (VStruct [Field True False (VBool True), Field True False (VBool False),
                               Field True False (VBool True)])) =
     gridSpec (marshal 96) 96
       [RValue NotRO (VBool True), RValue NotRO (VBool False), RValue NotRO (VBool True)]
   \<and> sliceEncoder (marshal 96) 96 (RValue NotRO (VSlice [VBool True, VBool False, VBool True])) =
     gridSpec (marshal 96) 96
       [RValue NotRO (VBool True), RValue NotRO (VBool False), RValue NotRO (VBool True)]
   \<and> gridSpec (marshal 96) 96
       [RValue NotRO (VBool True), RValue NotRO (VBool False), RValue NotRO (VBool True)] =
       ([Group []
          [Group [Translate 0 0, Scale (1 / 2) (1 / 2)]
             [Polygon [(12, 9294 / 125), (48, 12), (84, 9294 / 125)]
                [(''stroke-width'', ''0''), (''fill'', ''black'')]],
           Group [Translate 48 0, Scale (1 / 2) (1 / 2)]
             [Polygon [(12, 12), (48, 9294 / 125), (84, 12)]
                [(''stroke-width'', ''0''), (''fill'', ''red'')]],
           Group [Translate 0 48, Scale (1 / 2) (1 / 2)]
             [Polygon [(12, 9294 / 125), (48, 12), (84, 9294 / 125)]
                [(''stroke-width'', ''0''), (''fill'', ''black'')]]]],
        Success)
   \<and> structEncoder (marshal 96) 96
       (RValue NotRO (VStruct [Field True False (VBool True), Field True False (VBool False),
                               Field True False (VBool True)])) =
       ([Group []
          [Group [Translate 0 0, Scale (1 / 2) (1 / 2)]
             [Polygon [(12, 9294 / 125), (48, 12), (84, 9294 / 125)]
                [(''stroke-width'', ''0''), (''fill'', ''black'')]],
           Group [Translate 48 0, Scale (1 / 2) (1 / 2)]
             [Polygon [(12, 12), (48, 9294 / 125), (84, 12)]
                [(''stroke-width'', ''0''), (''fill'', ''red'')]],
           Group [Translate 0 48, Scale (1 / 2) (1 / 2)]
             [Polygon [(12, 9294 / 125), (48, 12), (84, 9294 / 125)]
                [(''stroke-width'', ''0''), (''fill'', ''black'')]]]],
        Success)"
proof -
  let ?cs = "[RValue NotRO (VBool True), RValue NotRO (VBool False), RValue NotRO (VBool True)]"
  let ?out = "([Group []
          [Group [Translate 0 0, Scale (1 / 2) (1 / 2)]
             [Polygon [(12, 9294 / 125), (48, 12), (84, 9294 / 125)]
                [(''stroke-width'', ''0''), (''fill'', ''black'')]],
           Group [Translate 48 0, Scale (1 / 2) (1 / 2)]
             [Polygon [(12, 12), (48, 9294 / 125), (84, 12)]
                [(''stroke-width'', ''0''), (''fill'', ''red'')]],
           Group [Translate 0 48, Scale (1 / 2) (1 / 2)]
             [Polygon [(12, 9294 / 125), (48, 12), (84, 9294 / 125)]
                [(''stroke-width'', ''0''), (''fill'', ''black'')]]]],
        Success)"
  have spec: "gridSpec (marshal 96) 96 ?cs = ?out"
    by (simp add: grid_eval marshal_VBool boolEncoder_def Let_def)
  have pos: "(0::real) < 96" by simp
  from composite_grid_layout [OF pos, of "marshal 96" NotRO
      "[Field True False (VBool True), Field True False (VBool False), Field True False (VBool True)]"
      "[VBool True, VBool False, VBool True]" ?cs]
  have struct: "structEncoder (marshal 96) 96
       (RValue NotRO (VStruct [Field True False (VBool True), Field True False (VBool False),
                               Field True False (VBool True)])) = gridSpec (marshal 96) 96 ?cs"
    and slice: "sliceEncoder (marshal 96) 96 (RValue NotRO (VSlice [VBool True, VBool False, VBool True])) =
       gridSpec (marshal 96) 96 ?cs"
    by (simp_all add: fieldValue_def)
  have ok: "snd (marshal 96 (RValue NotRO (VBool True))) = Success"
    "snd (marshal 96 (RValue NotRO (VBool False))) = Success"
    by (simp_all add: marshal_VBool boolEncoder_def Let_def)
  from struct slice spec ok show ?thesis by simp
qed

subsection \<open>Records\<close>

text \<open>
  C4, as the code has it. The specification wants the fields that are not exported skipped and
  left out of the count. \<^verbatim>\<open>structEncoder\<close> loops over all \<^verbatim>\<open>t.NumField()\<close> fields and
  never asks whether a field is exported: a struct whose only field is unexported is
  drawn as a grid of one cell with that field in it, and next to an exported field an
  unexported one takes the second cell of a grid of width 2.
\<close>

theorem unexported_field_is_rendered:
  "marshal 96 (RValue NotRO (VStruct [Field False False (VInt TInt 1)])) =
     ([Group []
        [Group [Translate 0 0, Scale 1 1]
           [Rect (423 / 5) (417 / 5) (54 / 5) (54 / 5)
              [(''stroke-width'', ''0''), (''fill'', ''black'')]]]], Success)
   \<and> marshal 96 (RValue NotRO (VStruct [Field True False (VBool True), Field False False (VBool False)])) =
     ([Group []
        [Group [Translate 0 0, Scale (1 / 2) (1 / 2)]
           [Polygon [(12, 9294 / 125), (48, 12), (84, 9294 / 125)]
              [(''stroke-width'', ''0''), (''fill'', ''black'')]],
         Group [Translate 48 0, Scale (1 / 2) (1 / 2)]
           [Polygon [(12, 12), (48, 9294 / 125), (84, 12)]
              [(''stroke-width'', ''0''), (''fill'', ''red'')]]]], Success)"
  by (simp add: marshal_kinds structEncoder_def fieldValue_def gridWidth_small leaf_defs Let_def)

text \<open>
  C4, amended: for every struct value and region of side \<open>sz > 0\<close>, the walker hands
  the struct to the record encoder with itself as the walker of the children, and the
  record encoder takes the declared fields in declaration order, exported or not, and
  stops after the first field whose encoding does not succeed; every field it reaches
  is drawn, in its cell of the grid whose child count \<open>n\<close> is the number of declared
  fields (what it returns is the layout of the specification over all declared
  fields, whatever the walker \<open>m\<close> of the children does). When the encoding of every
  field succeeds, every declared field is drawn and the encoder returns success.
\<close>

theorem struct_renders_every_field:
  "0 < sz \<Longrightarrow>
     marshal sz (RValue fl (VStruct fs)) = structEncoder (marshal sz) sz (RValue fl (VStruct fs))
   \<and> structEncoder m sz (RValue fl (VStruct fs)) = gridSpec m sz (map (fieldValue fl) fs)
   \<and> ((\<forall>f \<in> set fs. snd (m (fieldValue fl f)) = Success) \<longrightarrow> fs \<noteq> [] \<longrightarrow>
        structEncoder m sz (RValue fl (VStruct fs)) =
          ([Group [] (map (gridCell m sz (map (fieldValue fl) fs)) [0..<length fs])], Success))"
proof -
  assume sz: "0 < sz"
  have eq: "structEncoder m sz (RValue fl (VStruct fs)) = gridSpec m sz (map (fieldValue fl) fs)"
    by (rule structEncoder_gridSpec) (fact sz)
  have "structEncoder m sz (RValue fl (VStruct fs)) =
          ([Group [] (map (gridCell m sz (map (fieldValue fl) fs)) [0..<length fs])], Success)"
    if ok: "\<forall>f \<in> set fs. snd (m (fieldValue fl f)) = Success" and ne: "fs \<noteq> []"
  proof -
    from ok have "\<forall>c \<in> set (map (fieldValue fl) fs). snd (m c) = Success" by simp
    from all_attempted [OF this] eq ne show ?thesis by (simp add: gridSpec_def)
  qed
  with eq marshal_VStruct [of sz fl fs] show ?thesis by blast
qed

theorem struct_renders_every_field_witness:
  "(0::real) < 96
   \<and> snd (marshal 96 (RValue NotRO (VBool True))) = Success
   \<and> snd (marshal 96 (RValue StickyRO (VBool False))) = Success
   \<and> marshal 96 (RValue NotRO (VStruct [Field True False (VBool True), Field False False (VBool False)])) =
     ([Group []
        [Group [Translate 0 0, Scale (1 / 2) (1 / 2)]
           [Polygon [(12, 9294 / 125), (48, 12), (84, 9294 / 125)]
              [(''stroke-width'', ''0''), (''fill'', ''black'')]],
         Group [Translate 48 0, Scale (1 / 2) (1 / 2)]
           [Polygon [(12, 12), (48, 9294 / 125), (84, 12)]
              [(''stroke-width'', ''0''), (''fill'', ''red'')]]]], Success)
   \<and> marshal 96 (RValue NotRO (VStruct [Field True False (VBool True), Field True False (VUint TUint16 7),
                                       Field True False (VBool True)])) =
     ([Group []
        [Group [Translate 0 0, Scale (1 / 2) (1 / 2)]
           [Polygon [(12, 9294 / 125), (48, 12), (84, 9294 / 125)]
              [(''stroke-width'', ''0''), (''fill'', ''black'')]],
         Group [Translate 48 0, Scale (1 / 2) (1 / 2)] []]],
      Failure (UnsupportedTypeError KUint16))"
proof -
  have pos: "(0::real) < 96" by simp
  have ok: "snd (marshal 96 (RValue NotRO (VBool True))) = Success"
    "snd (marshal 96 (RValue StickyRO (VBool False))) = Success"
    by (simp_all add: marshal_VBool boolEncoder_def Let_def)
  from struct_renders_every_field [OF pos, of NotRO
      "[Field True False (VBool True), Field False False (VBool False)]" "marshal 96"]
  have two: "marshal 96 (RValue NotRO (VStruct [Field True False (VBool True), Field False False (VBool False)])) =
      gridSpec (marshal 96) 96 [RValue NotRO (VBool True), RValue StickyRO (VBool False)]"
    by (simp add: fieldValue_def)
  from struct_renders_every_field [OF pos, of NotRO
      "[Field True False (VBool True), Field True False (VUint TUint16 7), Field True False (VBool True)]"
      "marshal 96"]
  have three: "marshal 96 (RValue NotRO (VStruct [Field True False (VBool True),
        Field True False (VUint TUint16 7), Field True False (VBool True)])) =
      gridSpec (marshal 96) 96
        [RValue NotRO (VBool True), RValue NotRO (VUint TUint16 7), RValue NotRO (VBool True)]"
    by (simp add: fieldValue_def)
  show ?thesis
    unfolding two three using ok
    by (simp add: grid_eval marshal_VBool marshal_VUint_other boolEncoder_def Let_def)
qed

subsection \<open>Bytes\<close>

lemma filter_upt_Suc:
  "filter P [0..<Suc k] = (if P 0 then [0] else []) @ map Suc (filter (\<lambda>j. P (Suc j)) [0..<k])"
proof -
  have "[0..<Suc k] = 0 # map Suc [0..<k]"
    by (simp add: upt_conv_Cons map_Suc_upt del: upt_Suc)
  then show ?thesis by (simp add: filter_map comp_def del: upt_Suc)
qed

lemma bit_half: "bit (w :: 64 word) (Suc j) = bit (drop_bit (Suc 0) w) j"
  by (simp add: bit_Suc drop_bit_Suc)

lemma byteRows_bits:
  "0 < h \<Longrightarrow>
   byteRows sz h blkH margin (real k * h) val g =
     g @ map (\<lambda>j. Rect margin (real (k - j) * h - margin) (sz - margin) blkH
                    [(''stroke-width'', ''0''), (''fill'', ''black'')])
           (filter (bit val) [0..<k])"
proof (induction k arbitrary: val g)
  case 0
  show ?case by (subst byteRows.simps) simp
next
  case (Suc k)
  let ?bar = "\<lambda>y. Rect margin (y - margin) (sz - margin) blkH
                    [(''stroke-width'', ''0''), (''fill'', ''black'')]"
  let ?g1 = "byteBit sz blkH margin (real (Suc k) * h) val g"
  from Suc.prems have y: "0 < real (Suc k) * h" by simp
  have next_y: "real (Suc k) * h - h = real k * h" by (simp add: algebra_simps)
  have bit0: "(val mod 2 = 1) = bit val 0"
    by (simp add: bit_0 odd_iff_mod_2_eq_one)
  have g1: "?g1 = g @ (if bit val 0 then [?bar (real (Suc k) * h)] else [])"
    by (simp add: byteBit_def bit0)
  have shift: "map (\<lambda>j. ?bar (real (Suc k - j) * h)) (map Suc js) = map (\<lambda>j. ?bar (real (k - j) * h)) js"
    for js by simp
  show ?case
  proof (cases "drop_bit 1 val = 0")
    case True
    then have "bit val (Suc j) = False" for j by (simp add: bit_half)
    then have high: "filter (\<lambda>j. bit val (Suc j)) [0..<k] = []" by simp
    have "byteRows sz h blkH margin (real (Suc k) * h) val g = ?g1"
      using y True by (subst byteRows.simps) simp
    with g1 high show ?thesis by (simp add: filter_upt_Suc del: upt_Suc of_nat_Suc)
  next
    case False
    have "byteRows sz h blkH margin (real (Suc k) * h) val g =
            byteRows sz h blkH margin (real k * h) (drop_bit 1 val) ?g1"
      using y False next_y by (subst byteRows.simps) simp
    also have "\<dots> = ?g1 @ map (\<lambda>j. ?bar (real (k - j) * h)) (filter (bit (drop_bit 1 val)) [0..<k])"
      by (rule Suc.IH) (fact Suc.prems)
    finally show ?thesis
      using g1 shift [of "filter (bit (drop_bit 1 val)) [0..<k]"]
      by (simp add: filter_upt_Suc bit_half del: upt_Suc of_nat_Suc)
  qed
qed

text \<open>
  C5, as the code has it. The specification wants one bar per set bit of the byte, the least
  significant at the top. At size 96 the bar of bit 0 is drawn at y = 82.8, in the
  lowest row; and the loop of \<^verbatim>\<open>byteEncoder\<close> runs while \<^verbatim>\<open>y > 0\<close> and so stops before
  the row at 0: bit 7 is never drawn, and the byte 128 gives no bar.
\<close>

theorem byte_lowest_bit_at_bottom:
  "byteEncoder 96 (RValue NotRO (VUint TUint8 1)) =
     ([Rect (6 / 5) (414 / 5) (474 / 5) (48 / 5)
         [(''stroke-width'', ''0''), (''fill'', ''black'')]], Success)
   \<and> byteEncoder 96 (RValue NotRO (VUint TUint8 128)) = ([], Success)"
  by (simp add: leaf_defs Let_def)

text \<open>
  C5, amended: for every unsigned 8-bit value with bit 7 clear and a region whose side
  \<open>sz\<close> is a whole number below \<open>2 ^ 40\<close>, the encoder draws one black bar for each
  set bit and none for the others, in the order of the bits from the least
  significant on, and returns success. The bar of bit \<open>i\<close> is \<open>byteBar sz i\<close>: it
  belongs to row \<open>7 - i\<close> counted from the top (the least significant bit lowest),
  starts a margin in from the left edge and a margin above the top of its row, and
  reaches the right edge. (The loop returns as soon as the remaining value is 0; that
  shows in no bar.) For \<open>0b00000101\<close> the bars are those of bits 0 and 2.
\<close>

theorem byteEncoder_bars:
  "whole_size sz \<Longrightarrow> val < 128 \<Longrightarrow>
   byteEncoder sz (RValue fl (VUint t val)) =
     (map (byteBar sz) (filter (bit val) [0..<8]), Success)"
proof -
  assume "whole_size sz" and small: "val < 128"
  then have sz: "0 < sz" by (simp add: whole_size_pos)
  have no7: "\<not> bit val 7"
  proof -
    from small have "unat val < 128" by (simp add: word_less_nat_alt)
    then have "unat val div 2 ^ 7 = 0" by simp
    then have "\<not> bit (unat val) 7" by (simp add: bit_iff_odd)
    then show ?thesis by (simp add: bit_unsigned_iff)
  qed
  have upt8: "[0..<8] = [0..<7] @ [7::nat]"
    by (simp add: upt_rec)
  have seven: "filter (bit val) [0..<8] = filter (bit val) [0..<7]"
    using no7 by (simp add: upt8)
  have h: "0 < sz / 8" using sz by simp
  have start: "sz - sz / 8 = real 7 * (sz / 8)" by simp
  have "byteRows sz (sz / 8) (sz / 8 * (1 - 0.2)) (sz / 8 * (0.2 / 2)) (sz - sz / 8) val [] =
          [] @ map (\<lambda>j. Rect (sz / 8 * (0.2 / 2)) (real (7 - j) * (sz / 8) - sz / 8 * (0.2 / 2))
                         (sz - sz / 8 * (0.2 / 2)) (sz / 8 * (1 - 0.2))
                         [(''stroke-width'', ''0''), (''fill'', ''black'')])
                 (filter (bit val) [0..<7])"
    unfolding start by (rule byteRows_bits) (fact h)
  also have "\<dots> = map (byteBar sz) (filter (bit val) [0..<7])"
    by (simp add: byteBar_def Let_def)
  finally show ?thesis
    by (simp add: byteEncoder_def Let_def seven)
qed

theorem byteEncoder_bars_witness:
  "whole_size 96 \<and> (5 :: 64 word) < 128
   \<and> byteEncoder 96 (RValue NotRO (VUint TUint8 5)) =
       ([Rect (6 / 5) (414 / 5) (474 / 5) (48 / 5)
           [(''stroke-width'', ''0''), (''fill'', ''black'')],
         Rect (6 / 5) (294 / 5) (474 / 5) (48 / 5)
           [(''stroke-width'', ''0''), (''fill'', ''black'')]], Success)"
proof -
  have bits: "filter (bit (5 :: 64 word)) [0..<8] = [0, 2]"
    by (simp add: upt_rec bit_numeral_rec)
  have small: "(5 :: 64 word) < 128" by simp
  from byteEncoder_bars [OF whole_size_96 small, of NotRO TUint8] whole_size_96 show ?thesis
    by (simp add: bits byteBar_def Let_def)
qed

subsection \<open>When intEncoder returns\<close>

text \<open>
  With a positive cell side both loops count down to 0, whatever the value is.
\<close>

lemma intCols_returns:
  assumes "0 < cellSz"
  shows "\<exists>r. intCols cellSz blkSz margin color y x val g = Some r"
proof -
  have step: "x \<le> real k * cellSz \<Longrightarrow> \<exists>r. intCols cellSz blkSz margin color y x val g = Some r"
    for k x val g
  proof (induction k arbitrary: x val g)
    case 0
    then have "\<not> 0 < x" by simp
    then have "intCols cellSz blkSz margin color y x val g = Some (False, val, g)"
      by (subst intCols.simps) simp
    then show ?case by blast
  next
    case (Suc k)
    show ?case
    proof (cases "0 < x \<and> signed_drop_bit 1 val \<noteq> 0")
      case True
      from Suc.prems have "x - cellSz \<le> real k * cellSz" by (simp add: algebra_simps)
      from Suc.IH [OF this] True show ?thesis by (subst intCols.simps) simp
    next
      case False
      then show ?thesis by (subst intCols.simps) auto
    qed
  qed
  from reals_Archimedean3 [OF assms] obtain k where "x < real k * cellSz" by blast
  then have "x \<le> real k * cellSz" by simp
  then show ?thesis by (rule step)
qed

lemma intRows_returns:
  assumes "0 < cellSz"
  shows "\<exists>g'. intRows sz cellSz blkSz margin color y val g = Some g'"
proof -
  have step: "y \<le> real k * cellSz \<Longrightarrow> \<exists>g'. intRows sz cellSz blkSz margin color y val g = Some g'"
    for k y val g
  proof (induction k arbitrary: y val g)
    case 0
    then have "\<not> 0 < y" by simp
    then show ?case by (subst intRows.simps) simp
  next
    case (Suc k)
    show ?case
    proof (cases "0 < y")
      case False
      then show ?thesis by (subst intRows.simps) simp
    next
      case True
      from intCols_returns [OF assms] obtain returned val' g1 where
        cols: "intCols cellSz blkSz margin color y (sz - cellSz) val g = Some (returned, val', g1)"
        by (metis prod_cases3)
      from Suc.prems have "y - cellSz \<le> real k * cellSz" by (simp add: algebra_simps)
      from Suc.IH [OF this] cols True show ?thesis by (subst intRows.simps) simp
    qed
  qed
  from reals_Archimedean3 [OF assms] obtain k where "y < real k * cellSz" by blast
  then have "y \<le> real k * cellSz" by simp
  then show ?thesis by (rule step)
qed

text \<open>On a whole size the encoder returns nil.\<close>

lemma intEncoder_returns:
  assumes "whole_size sz"
  shows "\<exists>g. intEncoder sz (RValue fl (VInt t n)) = (g, Success)"
proof -
  from assms have "0 < sz / 8" by (simp add: whole_size_def)
  then have rows: "\<exists>g. intRows sz (sz / 8) blkSz margin color (sz - sz / 8) val [] = Some g"
    for blkSz margin color val
    by (rule intRows_returns)
  have "\<exists>g. (case intRows sz (sz / 8) blkSz margin color (sz - sz / 8) val [] of
               None \<Rightarrow> ([], Diverged) | Some g \<Rightarrow> (g, Success)) = (g, Success)"
    for blkSz margin color val
    using rows [of blkSz margin color val] by auto
  then show ?thesis
    unfolding intEncoder_def Let_def by (simp split: prod.split del: One_nat_def)
qed

text \<open>
  With a cell side of 0 and a negative value neither loop ends: \<open>x\<close> and \<open>y\<close> do not
  fall, and the arithmetic shift keeps a negative value negative.
\<close>

definition stuck :: "real \<Rightarrow> real \<Rightarrow> 64 word \<Rightarrow> bool" where
  "stuck cellSz x val = (cellSz = 0 \<and> 0 < x \<and> sint val < 0)"

lemma neg_half:
  "sint (val :: 64 word) < 0 \<Longrightarrow>
   sint (signed_drop_bit 1 val) < 0 \<and> signed_drop_bit 1 val \<noteq> 0"
proof -
  assume neg: "sint val < 0"
  have "sint (signed_drop_bit 1 val) = drop_bit 1 (sint val)"
    by (simp add: sint_signed_drop_bit_eq)
  also have "\<dots> = sint val div 2" by (simp add: drop_bit_eq_div)
  also from neg have "\<dots> < 0" by simp
  finally have "sint (signed_drop_bit 1 val) < 0" .
  then show ?thesis by auto
qed

lemma intCols_stuck:
  assumes ret: "intCols cellSz blkSz margin color y x val g = Some r"
  shows "\<not> stuck cellSz x val"
proof -
  note ind = intCols.raw_induct
    [where P = "\<lambda>cellSz blkSz margin color y x val g r. \<not> stuck cellSz x val"
       and xa = "(((((((cellSz, blkSz), margin), color), y), x), val), g)" and ya = r,
     simplified]
  show ?thesis
  proof (rule ind)
    fix f :: "real \<Rightarrow> real \<Rightarrow> real \<Rightarrow> string \<Rightarrow> real \<Rightarrow> real \<Rightarrow> 64 word \<Rightarrow> elem list
                \<Rightarrow> (bool \<times> 64 word \<times> elem list) option"
    fix cellSz blkSz margin color y x val g r
    assume IH: "\<And>a b c d e x' val' g' r'. f a b c d e x' val' g' = Some r' \<Longrightarrow> \<not> stuck a x' val'"
      and body: "(if 0 < x
                  then if signed_drop_bit 1 val = 0
                       then Some (True, signed_drop_bit 1 val, intBit blkSz margin color y x val g)
                       else f cellSz blkSz margin color y (x - cellSz) (signed_drop_bit 1 val)
                              (intBit blkSz margin color y x val g)
                  else Some (False, val, g)) = Some r"
    show "\<not> stuck cellSz x val"
    proof
      assume st: "stuck cellSz x val"
      then have nz: "signed_drop_bit 1 val \<noteq> 0" and neg: "sint (signed_drop_bit 1 val) < 0"
        using neg_half [of val] by (simp_all add: stuck_def)
      from body st nz
      have "f cellSz blkSz margin color y (x - cellSz) (signed_drop_bit 1 val)
              (intBit blkSz margin color y x val g) = Some r"
        by (simp add: stuck_def)
      from IH [OF this] st neg show False by (simp add: stuck_def)
    qed
  next
    show "intCols cellSz blkSz margin color y x val g = Some r" by (fact ret)
  qed
qed

lemma intCols_diverges:
  "0 < x \<Longrightarrow> sint val < 0 \<Longrightarrow> intCols 0 blkSz margin color y x val g = None"
  using intCols_stuck [of 0 blkSz margin color y x val g]
  by (cases "intCols 0 blkSz margin color y x val g") (auto simp: stuck_def)

lemma intRows_diverges:
  "0 < y \<Longrightarrow> 0 < sz \<Longrightarrow> sint val < 0 \<Longrightarrow> intRows sz 0 blkSz margin color y val g = None"
  by (subst intRows.simps) (simp add: intCols_diverges)

text \<open>
  C9. The specification: for a size \<open>\<le> 0\<close> \<^verbatim>\<open>Marshal\<close> fails with the size error, for
  every positive size and every scalar it succeeds, and an error comes with no bytes.
  The first and the last hold (lemma \<open>Marshal_on_whole_sizes\<close> below, which also gives
  success for the scalars on whole sizes). Not every positive size succeeds: for
  \<^verbatim>\<open>Marshal(int64(math.MinInt64), 5e-324)\<close> float64 computes
  \<^verbatim>\<open>cellSz = sz / 8\<close> as 0 (so \<^verbatim>\<open>blkSz\<close> and \<^verbatim>\<open>margin\<close> are 0 and both
  counters start at \<^verbatim>\<open>sz - 0 = sz\<close>), the value is not positive, so the colour is red
  and \<^verbatim>\<open>val = -val\<close> wraps to the same value, and the loops of \<^verbatim>\<open>intEncoder\<close>, run
  from there, never return: \<^verbatim>\<open>Marshal\<close> neither succeeds nor fails. The exact
  division of the model does not give the 0; the loops are taken at the values
  float64 hands them, with \<open>1 / 2 ^ 1074\<close> the size \<^verbatim>\<open>5e-324\<close>.
\<close>

theorem int_loops_never_return:
  "- (- (2 ^ 63) :: 64 word) = - (2 ^ 63)
   \<and> sint (- (2 ^ 63) :: 64 word) \<le> 0
   \<and> intCols 0 0 0 ''red'' (1 / 2 ^ 1074) (1 / 2 ^ 1074) (- (2 ^ 63)) [] = None
   \<and> intRows (1 / 2 ^ 1074) 0 0 0 ''red'' (1 / 2 ^ 1074) (- (2 ^ 63)) [] = None"
proof -
  have neg: "sint (- (2 ^ 63) :: 64 word) < 0" by simp
  have pos: "(0::real) < 1 / 2 ^ 1074" by simp
  from intCols_diverges [OF pos neg] intRows_diverges [OF pos pos neg] show ?thesis
    by simp
qed

subsection \<open>The walker returns or panics\<close>

lemma firstError_cases:
  "firstError m cs = Success \<or> (\<exists>c \<in> set cs. firstError m cs = snd (m c))"
  by (induction cs) auto

lemma gridLoop_status:
  assumes "0 < w" and "\<And>c. c \<in> set cs \<Longrightarrow> snd (m c) \<noteq> Diverged"
  shows "snd (gridLoop m cellSz cellPt w 0 0 [] cs) \<noteq> Diverged"
proof -
  have "snd (gridLoop m cellSz cellPt w 0 0 [] cs) = firstError m cs"
    using gridLoop_cells [OF assms(1), of m cellSz cellPt 0 "[]" cs] by simp
  with firstError_cases [of m cs] assms(2) show ?thesis by auto
qed

lemma structEncoder_status:
  assumes "\<And>cs c. v_Fields v = Inr cs \<Longrightarrow> c \<in> set cs \<Longrightarrow> snd (m c) \<noteq> Diverged"
  shows "snd (structEncoder m sz v) \<noteq> Diverged"
proof (cases "v_Fields v")
  case (Inl p)
  then show ?thesis by (simp add: structEncoder_def)
next
  case (Inr cs)
  show ?thesis
  proof (cases "cs = []")
    case True
    with Inr show ?thesis by (simp add: structEncoder_def)
  next
    case False
    then have "0 < gridWidth (length cs)" by (simp add: gridWidth_pos)
    from gridLoop_status [OF this assms [OF Inr]] Inr False show ?thesis
      by (simp add: structEncoder_def Let_def case_prod_beta)
  qed
qed

lemma sliceEncoder_status:
  assumes "\<And>cs c. v_Indexes v = Inr cs \<Longrightarrow> c \<in> set cs \<Longrightarrow> snd (m c) \<noteq> Diverged"
  shows "snd (sliceEncoder m sz v) \<noteq> Diverged"
proof (cases "v_Indexes v")
  case (Inl p)
  then show ?thesis by (simp add: sliceEncoder_def)
next
  case (Inr cs)
  show ?thesis
  proof (cases "cs = []")
    case True
    with Inr show ?thesis by (simp add: sliceEncoder_def)
  next
    case False
    then have "0 < gridWidth (length cs)" by (simp add: gridWidth_pos)
    from gridLoop_status [OF this assms [OF Inr]] Inr False show ?thesis
      by (simp add: sliceEncoder_def Let_def case_prod_beta)
  qed
qed

lemma mapEncoder_status:
  assumes "\<And>kvPairs p. mapPairs v = Inr (Some kvPairs) \<Longrightarrow> p \<in> set kvPairs
             \<Longrightarrow> snd (m (RValue NotRO (kvPairVal p))) \<noteq> Diverged"
  shows "snd (mapEncoder m sz v) \<noteq> Diverged"
proof (cases "mapPairs v")
  case (Inl pn)
  then show ?thesis by (simp add: mapEncoder_def)
next
  case (Inr r)
  show ?thesis
  proof (cases r)
    case None
    with Inr show ?thesis by (simp add: mapEncoder_def)
  next
    case (Some kvPairs)
    have "snd (sliceEncoder m sz (kvPairsValue kvPairs)) \<noteq> Diverged"
    proof (rule sliceEncoder_status)
      fix cs c
      assume "v_Indexes (kvPairsValue kvPairs) = Inr cs" and "c \<in> set cs"
      then obtain p where "p \<in> set kvPairs" and "c = RValue NotRO (kvPairVal p)"
        by (auto simp: kvPairsValue_def)
      with assms Inr Some show "snd (m c) \<noteq> Diverged" by simp
    qed
    with Inr Some show ?thesis by (simp add: mapEncoder_def)
  qed
qed

lemma intEncoder_status: "whole_size sz \<Longrightarrow> snd (intEncoder sz v) \<noteq> Diverged"
proof (cases "v_Int v")
  case (Inl p)
  then show ?thesis by (simp add: intEncoder_def)
next
  case (Inr n)
  assume sz: "whole_size sz"
  from Inr obtain fl t where "v = RValue fl (VInt t n)"
    by (cases v rule: v_Int.cases) auto
  with intEncoder_returns [OF sz, of fl t n] show ?thesis by auto
qed

text \<open>
  On a whole size a call of the walker ends whatever the value is: it returns (nil or
  an error) or it panics, and the status \<open>Diverged\<close> does not occur.
\<close>

lemma marshal_ends: "whole_size sz \<Longrightarrow> snd (marshal sz v) \<noteq> Diverged"
proof (induction sz v rule: marshal.induct)
  case (1 sz v)
  note sz = \<open>whole_size sz\<close>
  show ?case
  proof (cases "valueEncoder v")
    case (Inl p)
    then show ?thesis by (simp add: marshal.simps [of sz v])
  next
    case outer: (Inr r)
    show ?thesis
    proof (cases r)
      case (Inl err)
      with outer show ?thesis by (simp add: marshal.simps [of sz v])
    next
      case (Inr f)
      note enc = outer Inr
      show ?thesis
      proof (cases f)
        case IntEncoder
        with enc intEncoder_status [OF sz] show ?thesis by (simp add: marshal.simps [of sz v])
      next
        case ByteEncoder
        with enc show ?thesis
          by (simp add: marshal.simps [of sz v] byteEncoder_def Let_def split: sum.split)
      next
        case FloatEncoder
        with enc show ?thesis
          by (simp add: marshal.simps [of sz v] floatEncoder_def Let_def
                split: sum.split prod.split)
      next
        case BoolEncoder
        with enc show ?thesis
          by (simp add: marshal.simps [of sz v] boolEncoder_def Let_def
                split: sum.split prod.split)
      next
        case StringEncoder
        with enc "1.IH"(1) sz show ?thesis
          by (simp add: marshal.simps [of sz v] stringEncoder_def split: sum.split)
      next
        case StructEncoder
        with enc "1.IH"(2) sz have "snd (structEncoder (marshal sz) sz v) \<noteq> Diverged"
          by (intro structEncoder_status) blast
        with enc StructEncoder show ?thesis by (simp add: marshal.simps [of sz v])
      next
        case SliceEncoder
        with enc "1.IH"(3) sz have "snd (sliceEncoder (marshal sz) sz v) \<noteq> Diverged"
          by (intro sliceEncoder_status) blast
        with enc SliceEncoder show ?thesis by (simp add: marshal.simps [of sz v])
      next
        case MapEncoder
        with enc "1.IH"(4) sz have "snd (mapEncoder (marshal sz) sz v) \<noteq> Diverged"
          by (intro mapEncoder_status) blast
        with enc MapEncoder show ?thesis by (simp add: marshal.simps [of sz v])
      next
        case IfaceEncoder
        with enc "1.IH"(5) sz show ?thesis
          by (simp add: marshal.simps [of sz v] ifaceEncoder_def split: sum.split)
      next
        case PtrEncoder
        with enc "1.IH"(6) sz show ?thesis
          by (simp add: marshal.simps [of sz v] ptrEncoder_def split: sum.split)
      qed
    qed
  qed
qed

lemma Marshal_ends: "whole_size sz \<Longrightarrow> Marshal Render i sz \<noteq> NeverReturns"
  using marshal_ends [of sz "ValueOf i"]
  by (auto simp: Marshal_def split: prod.split status.split)

subsection \<open>How many records a map gives\<close>

lemma mapLoop_count:
  "\<forall>(k, val) \<in> set keys. flag k = NotRO \<and> flag val = NotRO \<and> v_IsValid k \<and> v_IsValid val \<Longrightarrow>
   \<exists>p' kvPairs'. mapLoop keys p isOdd kvPairs = Inr (p', isOdd \<noteq> odd (length keys), kvPairs')
      \<and> length kvPairs' = length kvPairs + (length keys + (if isOdd then 1 else 0)) div 2"
proof (induction keys p isOdd kvPairs rule: mapLoop.induct)
  case (1 p isOdd kvPairs)
  then show ?case by simp
next
  case (2 k val keys p isOdd kvPairs)
  from "2.prems" obtain kd vd where k: "k = RValue NotRO kd" and val: "val = RValue NotRO vd"
    by (cases k; cases val) auto
  obtain ki where ki: "v_Interface k = Inr ki" using k by (cases kd) simp_all
  obtain vi where vi: "v_Interface val = Inr vi" using val by (cases vd) simp_all
  from "2.prems" have rest:
    "\<forall>(k, val) \<in> set keys. flag k = NotRO \<and> flag val = NotRO \<and> v_IsValid k \<and> v_IsValid val"
    by simp
  show ?case
  proof (cases isOdd)
    case False
    from "2.IH"(1) [OF ki vi _ rest] False ki vi show ?thesis by auto
  next
    case True
    from "2.IH"(2) [OF ki vi _ rest] True ki vi show ?thesis by auto
  qed
qed

text \<open>
  A map that is not read-only, with \<open>k > 0\<close> entries, gives \<open>k div 2\<close> records when
  \<open>k\<close> is odd (the last entry is lost) and \<open>k div 2 + 1\<close> when \<open>k\<close> is even (the
  last record twice).
\<close>

lemma mapPairs_count:
  assumes "es \<noteq> []"
  shows "\<exists>kvPairs. mapPairs (RValue NotRO (VMap es)) = Inr (Some kvPairs)
           \<and> length kvPairs = (if odd (length es) then length es div 2 else length es div 2 + 1)"
proof -
  let ?keys = "map (\<lambda>e. (RValue NotRO (ekey e), RValue NotRO (evalue e))) es"
  have "\<forall>(k, val) \<in> set ?keys. flag k = NotRO \<and> flag val = NotRO \<and> v_IsValid k \<and> v_IsValid val"
    by auto
  from mapLoop_count [OF this, of zeroPair False "[]"] obtain p' kvPairs' where
    run: "mapLoop ?keys zeroPair False [] = Inr (p', odd (length es), kvPairs')"
    and len: "length kvPairs' = length es div 2"
    by auto
  from assms run len show ?thesis by (simp add: mapPairs_def)
qed

subsection \<open>Marshal\<close>

lemma marshal_bytes: "snd (marshal sz (bytesValue s)) = Success"
proof (cases "s = []")
  case True
  then show ?thesis by (simp add: bytesValue_def marshal_VSlice sliceEncoder_def)
next
  case False
  let ?cs = "map (RValue NotRO) (map (\<lambda>b. VUint TUint8 (ucast b)) s)"
  have "\<forall>c \<in> set ?cs. snd (marshal sz c) = Success"
    by (auto simp: marshal_VUint8 byteEncoder_def Let_def)
  then have "firstError (marshal sz) ?cs = Success" by (rule firstError_Success)
  moreover have "0 < gridWidth (length ?cs)" using False by (simp add: gridWidth_pos)
  ultimately show ?thesis
    using False gridLoop_cells [of 0 "gridWidth (length ?cs)" "marshal sz" _ _ 0 "[]" ?cs]
    by (simp add: bytesValue_def marshal_VSlice sliceEncoder_def Let_def case_prod_beta)
qed

lemma marshal_scalar:
  "whole_size sz \<Longrightarrow> scalar d \<Longrightarrow> snd (marshal sz (RValue fl d)) = Success"
proof (cases d)
  case (VInt t n)
  assume "whole_size sz"
  from intEncoder_returns [OF this, of fl t n] VInt show ?thesis
    by (auto simp: marshal_VInt)
next
  case (VUint t n)
  assume "scalar d"
  with VUint show ?thesis by (simp add: marshal_VUint8 byteEncoder_def Let_def)
next
  case (VFloat t x)
  then show ?thesis by (simp add: marshal_VFloat floatEncoder_def Let_def split: prod.split)
next
  case (VBool b)
  then show ?thesis by (simp add: marshal_VBool boolEncoder_def Let_def split: prod.split)
next
  case (VString s)
  then show ?thesis by (simp add: marshal_VString marshal_bytes)
qed simp_all

text \<open>
  What holds of \<^verbatim>\<open>Marshal\<close>. A size \<open>\<le> 0\<close> makes it return the size error and no
  bytes, whatever the value is (the test stands in front of everything else: even for
  the nil value, on which the walker would panic, the call returns the error). For a
  whole size and a scalar (a signed integer, a byte, a float, a boolean, a string) it
  returns what \<^verbatim>\<open>Render\<close> writes and no error, which is not empty when \<^verbatim>\<open>Render\<close>
  never writes an empty document. Whenever it returns an error, the bytes are nil;
  whenever it returns bytes, they are the rendering of the document after the walker
  returned nil.
\<close>

lemma Marshal_on_whole_sizes:
  "(sz \<le> 0 \<longrightarrow> Marshal Render i sz = Returns [] (Some InvalidSize))
   \<and> (whole_size sz \<and> scalar d \<and> (\<forall>doc. Render doc \<noteq> []) \<longrightarrow>
        (\<exists>bs. Marshal Render (Some d) sz = Returns bs None \<and> bs \<noteq> []))
   \<and> (Marshal Render i sz = Returns bs (Some err) \<longrightarrow> bs = [])
   \<and> (Marshal Render i sz = Returns bs None \<longrightarrow>
        (\<exists>g. marshal sz (ValueOf i) = (g, Success) \<and> bs = Render (SVG sz sz [Group [] g])))"
proof (intro conjI impI)
  assume "sz \<le> 0"
  then show "Marshal Render i sz = Returns [] (Some InvalidSize)"
    by (simp add: Marshal_def)
next
  assume a: "whole_size sz \<and> scalar d \<and> (\<forall>doc. Render doc \<noteq> [])"
  then have sz: "0 < sz" by (simp add: whole_size_pos)
  from a have "snd (marshal sz (RValue NotRO d)) = Success" by (simp add: marshal_scalar)
  then obtain g where "marshal sz (RValue NotRO d) = (g, Success)"
    by (cases "marshal sz (RValue NotRO d)") simp
  with a sz show "\<exists>bs. Marshal Render (Some d) sz = Returns bs None \<and> bs \<noteq> []"
    by (simp add: Marshal_def)
next
  assume "Marshal Render i sz = Returns bs (Some err)"
  then show "bs = []"
    by (auto simp: Marshal_def split: if_splits prod.splits status.splits)
next
  assume "Marshal Render i sz = Returns bs None"
  then show "\<exists>g. marshal sz (ValueOf i) = (g, Success) \<and> bs = Render (SVG sz sz [Group [] g])"
    by (auto simp: Marshal_def split: if_splits prod.splits status.splits)
qed

end
